theory Spec2Isabelle
  imports Main
begin

section \<open>Data model\<close>

text \<open>A 3D coordinate \<open>(x, y, depth)\<close>, and a 2D offset \<open>(x, y)\<close> of a shape.\<close>

type_synonym Coordinate = "int \<times> int \<times> int"
type_synonym offset = "int \<times> int"

text \<open>The outcome of a shot, and the kinds of vessels, as the enumerations declare them.\<close>

datatype Signal = MISS | HIT | KILL

datatype PieceType = SUBMARINE | DESTROYER | JET | GENERAL

text \<open>
  The exceptions the program can raise, by class and cause. \<open>ValueError\<close> is raised by
  \<open>place_all\<close> (two messages), by \<open>min\<close>/\<open>max\<close> of an empty sequence and by
  \<open>random.randrange\<close> of an empty range; \<open>RuntimeError\<close> by \<open>_place_random\<close>;
  \<open>IndexError\<close> by \<open>random.choice\<close> of an empty sequence and by an index out of range.
\<close>

datatype cause =
    ExactlyOneGeneralRequired
  | CannotPlaceOnLayer PieceType int int
  | EmptySequence
  | EmptyRange
  | CannotPlacePiece PieceType
  | CannotChoose
  | IndexOutOfRange

datatype exn = ValueError cause | RuntimeError cause | IndexError cause

text \<open>The values \<open>auto()\<close> gives the members of \<open>PieceType\<close>, in declaration order.\<close>

fun enum_value :: "PieceType \<Rightarrow> int" where
  "enum_value SUBMARINE = 1"
| "enum_value DESTROYER = 2"
| "enum_value JET = 3"
| "enum_value GENERAL = 4"

section \<open>Shape library\<close>

text \<open>
  \<open>_normalize\<close>: \<open>min\<close> of an empty list raises \<open>ValueError\<close>; otherwise every offset
  is shifted by the minimum x and the minimum y, and the result is a set.
\<close>

definition normalize_offsets :: "offset list \<Rightarrow> exn + offset set" where
  "normalize_offsets offsets =
     (let xs = map fst offsets; ys = map snd offsets in
      if xs = [] then Inl (ValueError EmptySequence)
      else let min_x = min_list xs; min_y = min_list ys in
           Inr ((\<lambda>(x, y). (x - min_x, y - min_y)) ` set offsets))"

text \<open>The 90 degree rotation about the origin, \<open>(x, y) -> (y, -x)\<close>, of every offset.\<close>

definition rotate90 :: "offset list \<Rightarrow> offset list" where
  "rotate90 current = map (\<lambda>(x, y). (y, - x)) current"

text \<open>
  The loop of \<open>_get_rotations\<close>, with the number of iterations left: normalize the
  current offsets, append the result unless it is already among the configurations,
  rotate the current offsets.
\<close>

fun rotations_loop :: "nat \<Rightarrow> offset set list \<Rightarrow> offset list \<Rightarrow> exn + offset set list" where
  "rotations_loop 0 configs current = Inr configs"
| "rotations_loop (Suc n) configs current =
     (case normalize_offsets current of
        Inl e \<Rightarrow> Inl e
      | Inr norm \<Rightarrow>
          rotations_loop n (if norm \<notin> set configs then configs @ [norm] else configs)
            (rotate90 current))"

definition get_rotations :: "offset list \<Rightarrow> exn + offset set list" where
  "get_rotations base = rotations_loop 4 [] base"

section \<open>Pieces\<close>

record Piece =
  piece_type :: PieceType
  coords :: "Coordinate set"
  hits :: "Coordinate set"

text \<open>\<open>Piece.register_hit\<close>: the signal, and the piece after the call.\<close>

definition register_hit :: "Piece \<Rightarrow> Coordinate \<Rightarrow> Signal \<times> Piece" where
  "register_hit p coord =
     (if coord \<notin> coords p then (MISS, p)
      else let p' = p\<lparr>hits := insert coord (hits p)\<rparr> in
           if piece_type p' \<in> {SUBMARINE, JET, GENERAL} then (KILL, p')
           else if hits p' = coords p' then (KILL, p')
           else (HIT, p'))"

section \<open>The shape table\<close>

text \<open>
  The shape table \<open>_SHAPES_2D\<close>, built when the module is loaded. The calls of
  \<open>_get_rotations\<close> and \<open>_normalize\<close> there raise nothing (lemma
  \<open>module_shapes_no_raise\<close> below), so the table holds their results.
\<close>

definition SHAPES_2D :: "PieceType \<Rightarrow> offset set list" where
  "SHAPES_2D ptype =
     (case ptype of
        SUBMARINE \<Rightarrow> projr (get_rotations [(0, 0), (1, 0), (2, 0)])
      | DESTROYER \<Rightarrow> projr (get_rotations [(0, 0), (1, 0), (2, 0), (3, 0)])
      | JET \<Rightarrow> projr (get_rotations [(- 1, 0), (0, 0), (1, 0), (0, - 1), (0, 1), (0, 2)])
      | GENERAL \<Rightarrow> [projr (normalize_offsets [(0, 0)])])"

section \<open>The random source\<close>

text \<open>
  The module \<open>random\<close> is a source of raw draws: \<open>rnd k\<close> is the k-th draw, and the
  position \<open>k\<close> is threaded through the calls. \<open>random.choice\<close> raises
  \<open>IndexError\<close> on an empty sequence; \<open>random.randrange n\<close> raises \<open>ValueError\<close>
  when \<open>n \<le> 0\<close> and otherwise returns a value of \<open>[0, n)\<close>. Every value of the
  range is the result of some draw.
\<close>

type_synonym rng = "nat \<Rightarrow> nat"

definition choice :: "rng \<Rightarrow> nat \<Rightarrow> 'a list \<Rightarrow> exn + 'a" where
  "choice rnd k xs =
     (if xs = [] then Inl (IndexError CannotChoose) else Inr (xs ! (rnd k mod length xs)))"

definition randrange :: "rng \<Rightarrow> nat \<Rightarrow> int \<Rightarrow> exn + int" where
  "randrange rnd k n =
     (if n \<le> 0 then Inl (ValueError EmptyRange) else Inr (int (rnd k) mod n))"

text \<open>\<open>max\<close> and \<open>min\<close> of the elements of an iterable: \<open>ValueError\<close> when it is empty.\<close>

definition max_of :: "int set \<Rightarrow> exn + int" where
  "max_of S = (if S = {} then Inl (ValueError EmptySequence) else Inr (Max S))"

definition min_of :: "int set \<Rightarrow> exn + int" where
  "min_of S = (if S = {} then Inl (ValueError EmptySequence) else Inr (Min S))"

text \<open>Sequencing of two computations, the first of which may raise.\<close>

definition bind_exn :: "exn + 'a \<Rightarrow> ('a \<Rightarrow> exn + 'b) \<Rightarrow> exn + 'b" where
  "bind_exn m f = (case m of Inl e \<Rightarrow> Inl e | Inr v \<Rightarrow> f v)"

section \<open>Boards\<close>

text \<open>
  A board. The dictionary \<open>occupied\<close> and the list \<open>pieces\<close> hold references to the same
  \<open>Piece\<close> objects: every piece is created in \<open>_place_random\<close>, which appends it to
  \<open>pieces\<close> and stores it under each of its coordinates. A reference is the position of
  the piece in \<open>pieces\<close>, so a hit registered through \<open>occupied\<close> is seen through
  \<open>pieces\<close>.
\<close>

record Board3D =
  depth :: int
  rows :: int
  cols :: int
  occupied :: "Coordinate \<rightharpoonup> nat"
  pieces :: "Piece list"

definition Board3D_init :: "int \<Rightarrow> int \<Rightarrow> int \<Rightarrow> Board3D" where
  "Board3D_init d r c = \<lparr>depth = d, rows = r, cols = c, occupied = Map.empty, pieces = []\<rparr>"

text \<open>
  One iteration of the loop of \<open>_place_random\<close>, reading the random source from position
  \<open>k\<close>: an exception, or the position after the draws together with \<open>None\<close> when the
  cells collide (\<open>continue\<close>) and with the board after the placement otherwise (\<open>return\<close>).
\<close>

definition place_attempt ::
    "PieceType \<Rightarrow> rng \<Rightarrow> Board3D \<Rightarrow> nat \<Rightarrow> exn + (Board3D option \<times> nat)" where
  "place_attempt ptype rnd b k =
     bind_exn (choice rnd k (SHAPES_2D ptype)) (\<lambda>shape.
     bind_exn (max_of (fst ` shape)) (\<lambda>max_dx.
     bind_exn (max_of (snd ` shape)) (\<lambda>max_dy.
     bind_exn (if ptype = GENERAL then randrange rnd (k + 1) (depth b)
               else Inr (enum_value ptype - 1)) (\<lambda>z.
     let k1 = (if ptype = GENERAL then k + 2 else k + 1) in
     bind_exn (randrange rnd k1 (cols b - max_dx)) (\<lambda>x0.
     bind_exn (randrange rnd (k1 + 1) (rows b - max_dy)) (\<lambda>y0.
     let cells = (\<lambda>(x, y). (x0 + x, y0 + y, z)) ` shape in
     if \<exists>c \<in> cells. occupied b c \<noteq> None then Inr (None, k1 + 2)
     else Inr (Some (b\<lparr>occupied := (\<lambda>c. if c \<in> cells then Some (length (pieces b))
                                          else occupied b c),
                       pieces := pieces b @ [\<lparr>piece_type = ptype, coords = cells, hits = {}\<rparr>]\<rparr>),
               k1 + 2)))))))"

fun place_attempts ::
    "nat \<Rightarrow> PieceType \<Rightarrow> rng \<Rightarrow> Board3D \<Rightarrow> nat \<Rightarrow> exn + (Board3D \<times> nat)" where
  "place_attempts 0 ptype rnd b k = Inl (RuntimeError (CannotPlacePiece ptype))"
| "place_attempts (Suc n) ptype rnd b k =
     (case place_attempt ptype rnd b k of
        Inl e \<Rightarrow> Inl e
      | Inr (None, k') \<Rightarrow> place_attempts n ptype rnd b k'
      | Inr (Some b', k') \<Rightarrow> Inr (b', k'))"

text \<open>\<open>Board3D._place_random\<close>: at most 1000 attempts, then \<open>RuntimeError\<close>.\<close>

definition place_random ::
    "PieceType \<Rightarrow> rng \<Rightarrow> Board3D \<Rightarrow> nat \<Rightarrow> exn + (Board3D \<times> nat)" where
  "place_random ptype rnd b k = place_attempts 1000 ptype rnd b k"

text \<open>
  The argument of \<open>place_all\<close>, a dictionary from piece types to counts, as the list of
  its items in the order of iteration.
\<close>

type_synonym counts = "(PieceType \<times> int) list"

definition counts_get :: "counts \<Rightarrow> PieceType \<Rightarrow> int \<Rightarrow> int" where
  "counts_get cnts ptype dflt = (case map_of cnts ptype of None \<Rightarrow> dflt | Some n \<Rightarrow> n)"

text \<open>The capacity \<open>max_count\<close> that \<open>place_all\<close> computes for a piece type.\<close>

definition max_count :: "Board3D \<Rightarrow> PieceType \<Rightarrow> exn + int" where
  "max_count b ptype =
     (if SHAPES_2D ptype = [] then Inl (IndexError IndexOutOfRange)
      else let base_shape = SHAPES_2D ptype ! 0 in
      bind_exn (max_of (fst ` base_shape)) (\<lambda>max_x.
      bind_exn (min_of (fst ` base_shape)) (\<lambda>min_x.
      bind_exn (max_of (snd ` base_shape)) (\<lambda>max_y.
      bind_exn (min_of (snd ` base_shape)) (\<lambda>min_y.
      let width = max_x - min_x + 1;
          height = max_y - min_y + 1;
          cap_horiz = (rows b div height) * (cols b div width);
          cap_vert = (rows b div width) * (cols b div height)
      in Inr (max cap_horiz cap_vert))))))"

text \<open>The first loop of \<open>place_all\<close>: the exception it raises, if any.\<close>

fun check_counts :: "Board3D \<Rightarrow> counts \<Rightarrow> exn option" where
  "check_counts b [] = None"
| "check_counts b ((ptype, num) # rest) =
     (if ptype = GENERAL then check_counts b rest
      else case max_count b ptype of
             Inl e \<Rightarrow> Some e
           | Inr m \<Rightarrow> if num > m then Some (ValueError (CannotPlaceOnLayer ptype num m))
                      else check_counts b rest)"

text \<open>
  The second loop of \<open>place_all\<close>. An exception of \<open>_place_random\<close> leaves the pieces
  placed so far on the board: the result is the exception raised, if any, the board and
  the position of the random source.
\<close>

fun place_n :: "nat \<Rightarrow> PieceType \<Rightarrow> rng \<Rightarrow> Board3D \<Rightarrow> nat \<Rightarrow> exn option \<times> Board3D \<times> nat" where
  "place_n 0 ptype rnd b k = (None, b, k)"
| "place_n (Suc n) ptype rnd b k =
     (case place_random ptype rnd b k of
        Inl e \<Rightarrow> (Some e, b, k)
      | Inr (b', k') \<Rightarrow> place_n n ptype rnd b' k')"

fun place_counts :: "counts \<Rightarrow> rng \<Rightarrow> Board3D \<Rightarrow> nat \<Rightarrow> exn option \<times> Board3D \<times> nat" where
  "place_counts [] rnd b k = (None, b, k)"
| "place_counts ((ptype, num) # rest) rnd b k =
     (case place_n (nat num) ptype rnd b k of
        (Some e, b', k') \<Rightarrow> (Some e, b', k')
      | (None, b', k') \<Rightarrow> place_counts rest rnd b' k')"

definition place_all :: "counts \<Rightarrow> rng \<Rightarrow> Board3D \<Rightarrow> nat \<Rightarrow> exn option \<times> Board3D \<times> nat" where
  "place_all cnts rnd b k =
     (if counts_get cnts GENERAL 0 \<noteq> 1 then (Some (ValueError ExactlyOneGeneralRequired), b, k)
      else case check_counts b cnts of
             Some e \<Rightarrow> (Some e, b, k)
           | None \<Rightarrow> place_counts cnts rnd b k)"

text \<open>\<open>Board3D.receive_fire\<close>: the signal, and the board after the call.\<close>

definition receive_fire :: "Board3D \<Rightarrow> Coordinate \<Rightarrow> Signal \<times> Board3D" where
  "receive_fire b coord =
     (case occupied b coord of
        None \<Rightarrow> (MISS, b)
      | Some i \<Rightarrow>
          let (sig, p') = register_hit (pieces b ! i) coord
          in (sig, b\<lparr>pieces := (pieces b)[i := p']\<rparr>))"

definition all_non_general_sunk :: "Board3D \<Rightarrow> bool" where
  "all_non_general_sunk b =
     list_all (\<lambda>p. piece_type p = GENERAL \<or> hits p = coords p) (pieces b)"

text \<open>A sequence of calls of \<open>receive_fire\<close>, the signals dropped.\<close>

fun receive_fires :: "Board3D \<Rightarrow> Coordinate list \<Rightarrow> Board3D" where
  "receive_fires b [] = b"
| "receive_fires b (c # cs) = receive_fires (snd (receive_fire b c)) cs"

section \<open>Matches\<close>

record Game =
  boards :: "Board3D list"
  shots :: "Coordinate set list"
  current :: nat

text \<open>
  \<open>Game.__init__\<close>: two boards, populated one after the other from the same random
  source; an exception of \<open>place_all\<close> propagates.
\<close>

definition Game_init :: "int \<Rightarrow> int \<Rightarrow> int \<Rightarrow> counts \<Rightarrow> rng \<Rightarrow> nat \<Rightarrow> exn + (Game \<times> nat)" where
  "Game_init d r c cnts rnd k =
     (case place_all cnts rnd (Board3D_init d r c) k of
        (Some e, b0, k0) \<Rightarrow> Inl e
      | (None, b0, k0) \<Rightarrow>
          (case place_all cnts rnd (Board3D_init d r c) k0 of
             (Some e, b1, k1) \<Rightarrow> Inl e
           | (None, b1, k1) \<Rightarrow> Inr (\<lparr>boards = [b0, b1], shots = [{}, {}], current = 0\<rparr>, k1)))"

text \<open>
  What one pass through the loop of \<open>Game.start\<close> does with a coordinate parsed from the
  input, from the test for a repeated shot to the end of the loop body: the shot was fired
  before (reported, \<open>continue\<close>, nothing changed), or it is recorded and resolved to a
  signal, with the winner when the loop returns and without one when the loop goes on.
  The piece under the coordinate is looked up before the shot, and its type is read after.
\<close>

datatype fire_result = AlreadyFired | Resolved Signal "nat option"

definition fire :: "Game \<Rightarrow> Coordinate \<Rightarrow> fire_result \<times> Game" where
  "fire g coord =
     (if coord \<in> shots g ! current g then (AlreadyFired, g)
      else
        let g1 = g\<lparr>shots := (shots g)[current g := insert coord (shots g ! current g)]\<rparr>;
            opp = 1 - current g1;
            target_board = boards g1 ! opp;
            piece = occupied target_board coord;
            (sig, target_board') = receive_fire target_board coord;
            g2 = g1\<lparr>boards := (boards g1)[opp := target_board']\<rparr>
        in
        if sig = MISS then (Resolved sig None, g2\<lparr>current := 1 - current g2\<rparr>)
        else if (case piece of None \<Rightarrow> False
                 | Some i \<Rightarrow> piece_type (pieces target_board' ! i) = GENERAL)
          then (Resolved sig (Some (current g2)), g2)
        else if all_non_general_sunk target_board' then (Resolved sig (Some (current g2)), g2)
        else (Resolved sig None, g2))"

section \<open>Notions used in the statements\<close>

text \<open>
  Normalization and rotation of a set of offsets, for stating what \<open>_normalize\<close> and
  \<open>_get_rotations\<close> compute on lists.
\<close>

definition norm_set :: "offset set \<Rightarrow> offset set" where
  "norm_set S = (\<lambda>(x, y). (x - Min (fst ` S), y - Min (snd ` S))) ` S"

definition rot_set :: "offset set \<Rightarrow> offset set" where
  "rot_set S = (\<lambda>(x, y). (y, - x)) ` S"

text \<open>The number of cells of each piece type.\<close>

definition shape_size :: "PieceType \<Rightarrow> nat" where
  "shape_size ptype = (case ptype of SUBMARINE \<Rightarrow> 3 | DESTROYER \<Rightarrow> 4 | JET \<Rightarrow> 6 | GENERAL \<Rightarrow> 1)"

text \<open>
  The board after \<open>_place_random\<close> has created a piece, appended it and stored it under
  its coordinates; the cells of a shape anchored at \<open>(x0, y0)\<close> on layer \<open>z\<close>; the layer an
  attempt that reads the random source from position \<open>k\<close> gives a piece type.
\<close>

definition add_piece :: "Board3D \<Rightarrow> Piece \<Rightarrow> Board3D" where
  "add_piece b p =
     b\<lparr>occupied := (\<lambda>c. if c \<in> coords p then Some (length (pieces b)) else occupied b c),
       pieces := pieces b @ [p]\<rparr>"

definition shape_cells :: "offset set \<Rightarrow> int \<Rightarrow> int \<Rightarrow> int \<Rightarrow> Coordinate set" where
  "shape_cells shape x0 y0 z = (\<lambda>(x, y). (x0 + x, y0 + y, z)) ` shape"

definition type_layer :: "PieceType \<Rightarrow> rng \<Rightarrow> Board3D \<Rightarrow> nat \<Rightarrow> int" where
  "type_layer ptype rnd b k =
     (if ptype = GENERAL then int (rnd (k + 1)) mod depth b else enum_value ptype - 1)"

text \<open>
  The coordinate index maps exactly the cells of each piece to that piece; distinct
  pieces share no cell; every piece has as many cells as its type's shape.
\<close>

definition index_exact :: "Board3D \<Rightarrow> bool" where
  "index_exact b \<longleftrightarrow>
     (\<forall>c i. occupied b c = Some i \<longleftrightarrow> i < length (pieces b) \<and> c \<in> coords (pieces b ! i))"

definition pairwise_disjoint :: "Board3D \<Rightarrow> bool" where
  "pairwise_disjoint b \<longleftrightarrow>
     (\<forall>i < length (pieces b). \<forall>j < length (pieces b).
        i \<noteq> j \<longrightarrow> coords (pieces b ! i) \<inter> coords (pieces b ! j) = {})"

definition sizes_ok :: "Board3D \<Rightarrow> bool" where
  "sizes_ok b \<longleftrightarrow> (\<forall>p \<in> set (pieces b). card (coords p) = shape_size (piece_type p))"

text \<open>
  Bounds of the cells of a piece on a board: columns and rows, and layers. A board is
  within bounds when all cells of all its pieces are. The second notion is what the
  placement gives on a board of any number of layers: columns and rows within bounds,
  the general on a layer of the board, and every other piece on the layer of its type,
  the value of the type minus one.
\<close>

definition xy_within :: "Board3D \<Rightarrow> Piece \<Rightarrow> bool" where
  "xy_within b p \<longleftrightarrow> (\<forall>(x, y, z) \<in> coords p. 0 \<le> x \<and> x < cols b \<and> 0 \<le> y \<and> y < rows b)"

definition z_within :: "Board3D \<Rightarrow> Piece \<Rightarrow> bool" where
  "z_within b p \<longleftrightarrow> (\<forall>(x, y, z) \<in> coords p. 0 \<le> z \<and> z < depth b)"

definition within_bounds :: "Board3D \<Rightarrow> bool" where
  "within_bounds b \<longleftrightarrow> (\<forall>p \<in> set (pieces b). xy_within b p \<and> z_within b p)"

definition on_type_layer :: "Piece \<Rightarrow> bool" where
  "on_type_layer p \<longleftrightarrow> (\<forall>(x, y, z) \<in> coords p. z = enum_value (piece_type p) - 1)"

definition within_bounds_by_design :: "Board3D \<Rightarrow> bool" where
  "within_bounds_by_design b \<longleftrightarrow>
     (\<forall>p \<in> set (pieces b).
        xy_within b p \<and>
        (piece_type p = GENERAL \<longrightarrow> z_within b p) \<and>
        (piece_type p \<noteq> GENERAL \<longrightarrow> on_type_layer p))"

text \<open>
  The capacity of a layer as the specification words it, from the bounding box of a
  type's base offsets (the lists from which the module builds the shape table).
\<close>

definition base_offsets :: "PieceType \<Rightarrow> offset list" where
  "base_offsets ptype =
     (case ptype of
        SUBMARINE \<Rightarrow> [(0, 0), (1, 0), (2, 0)]
      | DESTROYER \<Rightarrow> [(0, 0), (1, 0), (2, 0), (3, 0)]
      | JET \<Rightarrow> [(- 1, 0), (0, 0), (1, 0), (0, - 1), (0, 1), (0, 2)]
      | GENERAL \<Rightarrow> [(0, 0)])"

definition bbox_width :: "offset list \<Rightarrow> int" where
  "bbox_width offsets = Max (fst ` set offsets) - Min (fst ` set offsets) + 1"

definition bbox_height :: "offset list \<Rightarrow> int" where
  "bbox_height offsets = Max (snd ` set offsets) - Min (snd ` set offsets) + 1"

definition capacity :: "int \<Rightarrow> int \<Rightarrow> PieceType \<Rightarrow> int" where
  "capacity r c ptype =
     (let width = bbox_width (base_offsets ptype); height = bbox_height (base_offsets ptype)
      in max ((r div height) * (c div width)) ((r div width) * (c div height)))"

text \<open>
  A well-formed board: the index is exact and the hits of every piece are among its cells.
  The boards that a match can reach: populated by a successful \<open>place_all\<close> on a fresh
  board, then fired at.
\<close>

definition hits_within :: "Board3D \<Rightarrow> bool" where
  "hits_within b \<longleftrightarrow> (\<forall>p \<in> set (pieces b). hits p \<subseteq> coords p)"

definition wf_board :: "Board3D \<Rightarrow> bool" where
  "wf_board b \<longleftrightarrow> index_exact b \<and> hits_within b"

inductive reachable_board :: "Board3D \<Rightarrow> bool" where
  placed: "fst (place_all cnts rnd (Board3D_init d r c) k) = None \<Longrightarrow>
      reachable_board (fst (snd (place_all cnts rnd (Board3D_init d r c) k)))"
| fired: "reachable_board b \<Longrightarrow> reachable_board (snd (receive_fire b coord))"

text \<open>
  Between two states of a board the index, the pieces' types and cells are the same and
  the hits have only grown.
\<close>

definition grows :: "Board3D \<Rightarrow> Board3D \<Rightarrow> bool" where
  "grows b b' \<longleftrightarrow>
     occupied b' = occupied b \<and> length (pieces b') = length (pieces b) \<and>
     (\<forall>j < length (pieces b).
        piece_type (pieces b' ! j) = piece_type (pieces b ! j) \<and>
        coords (pieces b' ! j) = coords (pieces b ! j) \<and>
        hits (pieces b ! j) \<subseteq> hits (pieces b' ! j))"

text \<open>The board after a first shot at a coordinate and further shots at others.\<close>

definition later_board :: "Board3D \<Rightarrow> Coordinate \<Rightarrow> Coordinate list \<Rightarrow> Board3D" where
  "later_board b c cs = receive_fires (snd (receive_fire b c)) cs"

text \<open>The piece under a coordinate, if any, is the general.\<close>

definition struck_general :: "Board3D \<Rightarrow> Coordinate \<Rightarrow> bool" where
  "struck_general b coord \<longleftrightarrow>
     (case occupied b coord of None \<Rightarrow> False | Some i \<Rightarrow> piece_type (pieces b ! i) = GENERAL)"

text \<open>
  Destroyed, in the words of the specification: all cells hit, or any hit for a type
  that a single hit kills.
\<close>

definition spec_destroyed :: "Piece \<Rightarrow> bool" where
  "spec_destroyed p \<longleftrightarrow>
     hits p = coords p \<or> (piece_type p \<in> {SUBMARINE, JET, GENERAL} \<and> hits p \<noteq> {})"

text \<open>A board populated with the general and one destroyer.\<close>

definition example_board :: Board3D where
  "example_board =
     fst (snd (place_all [(GENERAL, 1), (DESTROYER, 1)] (\<lambda>k. k) (Board3D_init 3 5 5) 0))"

text \<open>A match with one submarine and the general on each board.\<close>

definition example_game :: Game where
  "example_game = fst (projr (Game_init 3 5 5 [(SUBMARINE, 1), (GENERAL, 1)] (\<lambda>k. k) 0))"

section \<open>Hit registration\<close>

text \<open>
  C3: \<open>register_hit\<close> returns MISS and leaves the piece as it is when the coordinate
  is not one of the piece's cells; otherwise the coordinate is added to the hits (which
  only grow, and stay within the cells when they were within them), only the hits change,
  and the signal is KILL for a submarine, a jet and the general, and for a destroyer KILL
  when the hits now equal the cells and HIT otherwise.
\<close>

theorem register_hit_spec:
  "(c \<notin> coords p \<longrightarrow> register_hit p c = (MISS, p)) \<and>
   (c \<in> coords p \<longrightarrow>
      snd (register_hit p c) = p\<lparr>hits := insert c (hits p)\<rparr> \<and>
      (piece_type p \<in> {SUBMARINE, JET, GENERAL} \<longrightarrow> fst (register_hit p c) = KILL) \<and>
      (piece_type p = DESTROYER \<longrightarrow>
         fst (register_hit p c) = (if insert c (hits p) = coords p then KILL else HIT))) \<and>
   hits p \<subseteq> hits (snd (register_hit p c)) \<and>
   coords (snd (register_hit p c)) = coords p \<and>
   piece_type (snd (register_hit p c)) = piece_type p \<and>
   (hits p \<subseteq> coords p \<longrightarrow> hits (snd (register_hit p c)) \<subseteq> coords p)"
  by (auto simp: register_hit_def Let_def)

theorem register_hit_spec_witness:
  "(0, 0, 1) \<in> coords \<lparr>piece_type = DESTROYER, coords = {(0, 0, 1), (1, 0, 1)}, hits = {}\<rparr> \<and>
   register_hit \<lparr>piece_type = DESTROYER, coords = {(0, 0, 1), (1, 0, 1)}, hits = {}\<rparr> (0, 0, 1)
     = (HIT, \<lparr>piece_type = DESTROYER, coords = {(0, 0, 1), (1, 0, 1)}, hits = {(0, 0, 1)}\<rparr>) \<and>
   register_hit \<lparr>piece_type = DESTROYER, coords = {(0, 0, 1), (1, 0, 1)}, hits = {(0, 0, 1)}\<rparr> (1, 0, 1)
     = (KILL, \<lparr>piece_type = DESTROYER, coords = {(0, 0, 1), (1, 0, 1)},
          hits = {(1, 0, 1), (0, 0, 1)}\<rparr>) \<and>
   register_hit \<lparr>piece_type = JET, coords = {(0, 0, 2), (1, 0, 2)}, hits = {}\<rparr> (1, 0, 2)
     = (KILL, \<lparr>piece_type = JET, coords = {(0, 0, 2), (1, 0, 2)}, hits = {(1, 0, 2)}\<rparr>) \<and>
   register_hit \<lparr>piece_type = JET, coords = {(0, 0, 2), (1, 0, 2)}, hits = {}\<rparr> (2, 0, 2)
     = (MISS, \<lparr>piece_type = JET, coords = {(0, 0, 2), (1, 0, 2)}, hits = {}\<rparr>)"
  using register_hit_spec [of "(0, 0, 1)"
      "\<lparr>piece_type = DESTROYER, coords = {(0, 0, 1), (1, 0, 1)}, hits = {}\<rparr>"]
    register_hit_spec [of "(1, 0, 1)"
      "\<lparr>piece_type = DESTROYER, coords = {(0, 0, 1), (1, 0, 1)}, hits = {(0, 0, 1)}\<rparr>"]
    register_hit_spec [of "(1, 0, 2)"
      "\<lparr>piece_type = JET, coords = {(0, 0, 2), (1, 0, 2)}, hits = {}\<rparr>"]
    register_hit_spec [of "(2, 0, 2)"
      "\<lparr>piece_type = JET, coords = {(0, 0, 2), (1, 0, 2)}, hits = {}\<rparr>"]
  by (simp add: prod_eq_iff insert_commute)

section \<open>Shape library: normalization and rotations\<close>

lemma normalize_offsets_Nil: "normalize_offsets [] = Inl (ValueError EmptySequence)"
  by (simp add: normalize_offsets_def)

lemma normalize_offsets_norm_set:
  "offsets \<noteq> [] \<Longrightarrow> normalize_offsets offsets = Inr (norm_set (set offsets))"
  by (simp add: normalize_offsets_def norm_set_def Let_def min_list_Min)

lemma set_rotate90: "set (rotate90 xs) = rot_set (set xs)"
  by (simp add: rotate90_def rot_set_def)

lemma rotate90_Nil_iff: "rotate90 xs = [] \<longleftrightarrow> xs = []"
  by (simp add: rotate90_def)

lemma Min_shift:
  fixes A :: "int set"
  assumes "finite A" "A \<noteq> {}"
  shows "Min ((\<lambda>x. x + a) ` A) = Min A + a"
  using mono_Min_commute [of "\<lambda>x. x + a" A] assms by (simp add: mono_def)

lemma norm_set_translate:
  assumes "finite T" "T \<noteq> {}"
  shows "norm_set ((\<lambda>(x, y). (x + a, y + b)) ` T) = norm_set T"
proof -
  let ?t = "\<lambda>(x, y). (x + a, y + b)"
  have fx: "fst ` ?t ` T = (\<lambda>x. x + a) ` fst ` T"
    by (force simp: image_iff)
  have fy: "snd ` ?t ` T = (\<lambda>y. y + b) ` snd ` T"
    by (force simp: image_iff)
  have mx: "Min (fst ` ?t ` T) = Min (fst ` T) + a"
    unfolding fx using assms by (simp add: Min_shift)
  have my: "Min (snd ` ?t ` T) = Min (snd ` T) + b"
    unfolding fy using assms by (simp add: Min_shift)
  show ?thesis
    unfolding norm_set_def mx my by (force simp: image_iff)
qed

lemma rot_set_translate:
  "rot_set ((\<lambda>(x, y). (x + a, y + b)) ` T) = (\<lambda>(x, y). (x + b, y - a)) ` rot_set T"
  unfolding rot_set_def by (force simp: image_iff)

lemma norm_set_as_translate:
  "norm_set S = (\<lambda>(x, y). (x + (- Min (fst ` S)), y + (- Min (snd ` S)))) ` S"
  by (simp add: norm_set_def)

lemma finite_rot_set: "finite S \<Longrightarrow> finite (rot_set S)"
  by (simp add: rot_set_def)

lemma rot_set_empty_iff: "rot_set S = {} \<longleftrightarrow> S = {}"
  by (simp add: rot_set_def)

lemma norm_rot_norm:
  assumes "finite S" "S \<noteq> {}"
  shows "norm_set (rot_set (norm_set S)) = norm_set (rot_set S)"
proof -
  have "rot_set (norm_set S) =
      (\<lambda>(x, y). (x + (- Min (snd ` S)), y - (- Min (fst ` S)))) ` rot_set S"
    by (subst norm_set_as_translate) (rule rot_set_translate)
  also have "\<dots> = (\<lambda>(x, y). (x + (- Min (snd ` S)), y + Min (fst ` S))) ` rot_set S"
    by simp
  finally show ?thesis
    using assms by (simp add: norm_set_translate finite_rot_set rot_set_empty_iff)
qed

lemma rot_set_four: "rot_set (rot_set (rot_set (rot_set S))) = S"
  unfolding rot_set_def by (force simp: image_iff)

lemma norm_set_min:
  assumes "finite S" "S \<noteq> {}"
  shows "Min (fst ` norm_set S) = 0" "Min (snd ` norm_set S) = 0"
proof -
  define a where "a = Min (fst ` S)"
  define b where "b = Min (snd ` S)"
  have fx: "fst ` norm_set S = (\<lambda>x. x + (- a)) ` fst ` S"
    unfolding norm_set_def a_def by (force simp: image_iff)
  have fy: "snd ` norm_set S = (\<lambda>x. x + (- b)) ` snd ` S"
    unfolding norm_set_def b_def by (force simp: image_iff)
  have "Min (fst ` norm_set S) = Min (fst ` S) + (- a)"
    unfolding fx using assms by (intro Min_shift) auto
  then show "Min (fst ` norm_set S) = 0" by (simp add: a_def)
  have "Min (snd ` norm_set S) = Min (snd ` S) + (- b)"
    unfolding fy using assms by (intro Min_shift) auto
  then show "Min (snd ` norm_set S) = 0" by (simp add: b_def)
qed

lemma rotations_loop_result:
  assumes "cur \<noteq> []"
  shows "\<exists>r. rotations_loop n configs cur = Inr r \<and>
     set r = set configs \<union> (\<lambda>k. norm_set ((rot_set ^^ k) (set cur))) ` {..<n} \<and>
     (distinct configs \<longrightarrow> distinct r) \<and>
     length r \<le> length configs + n \<and> (0 < n \<longrightarrow> r \<noteq> [])"
  using assms
proof (induction n arbitrary: configs cur)
  case 0
  then show ?case by simp
next
  case (Suc n)
  let ?norm = "norm_set (set cur)"
  let ?configs = "if ?norm \<notin> set configs then configs @ [?norm] else configs"
  from Suc.prems have ne: "rotate90 cur \<noteq> []" by (simp add: rotate90_Nil_iff)
  from Suc.IH [OF ne, of ?configs] obtain r where
    r: "rotations_loop n ?configs (rotate90 cur) = Inr r"
    and s: "set r = set ?configs \<union>
         (\<lambda>k. norm_set ((rot_set ^^ k) (set (rotate90 cur)))) ` {..<n}"
    and d: "distinct ?configs \<longrightarrow> distinct r"
    and l: "length r \<le> length ?configs + n"
    by blast
  have step: "rotations_loop (Suc n) configs cur = Inr r"
    using r Suc.prems by (simp add: normalize_offsets_norm_set)
  have img: "(\<lambda>k. norm_set ((rot_set ^^ k) (set cur))) ` {..<Suc n} =
      insert ?norm ((\<lambda>k. norm_set ((rot_set ^^ k) (set (rotate90 cur)))) ` {..<n})"
    unfolding lessThan_Suc_eq_insert_0
    by (simp add: image_image set_rotate90 funpow_swap1)
  have s': "set r = set configs \<union> (\<lambda>k. norm_set ((rot_set ^^ k) (set cur))) ` {..<Suc n}"
    unfolding img s by auto
  have "?norm \<in> set r" unfolding s by auto
  then have "r \<noteq> []" by auto
  moreover have "distinct configs \<longrightarrow> distinct r" using d by simp
  moreover have "length r \<le> length configs + Suc n" using l by (simp split: if_splits)
  ultimately show ?case using step s' by blast
qed


lemma funpow4: "(f ^^ 4) x = f (f (f (f x)))"
  by (simp add: numeral_eq_Suc)

lemma finite_rot_pow: "finite S \<Longrightarrow> finite ((rot_set ^^ k) S)"
  by (induction k) (simp_all add: finite_rot_set)

lemma rot_pow_empty_iff: "(rot_set ^^ k) S = {} \<longleftrightarrow> S = {}"
  by (induction k) (simp_all add: rot_set_empty_iff)

text \<open>
  C9: for a non-empty base list, \<open>_get_rotations\<close> raises nothing and returns between
  one and four variants, pairwise distinct, each a finite non-empty set whose minimum x
  and minimum y are 0; and rotating any returned variant (listed in any order) by 90
  degrees and normalizing it gives a variant of the returned list.
\<close>

theorem get_rotations_spec:
  assumes "base \<noteq> []"
  shows "\<exists>r. get_rotations base = Inr r \<and>
     1 \<le> length r \<and> length r \<le> 4 \<and> distinct r \<and>
     (\<forall>v \<in> set r. finite v \<and> v \<noteq> {} \<and> Min (fst ` v) = 0 \<and> Min (snd ` v) = 0) \<and>
     (\<forall>v \<in> set r. \<forall>vs. set vs = v \<longrightarrow>
        (\<exists>w. normalize_offsets (rotate90 vs) = Inr w \<and> w \<in> set r))"
proof -
  let ?N = "\<lambda>k. norm_set ((rot_set ^^ k) (set base))"
  from rotations_loop_result [OF assms, of 4 "[]"] obtain r where
    r: "get_rotations base = Inr r" and s: "set r = ?N ` {..<4}"
    and d: "distinct r" and l: "length r \<le> 4" and n: "r \<noteq> []"
    by (auto simp: get_rotations_def)
  have fin: "finite ((rot_set ^^ k) (set base))" for k by (simp add: finite_rot_pow)
  have ne: "(rot_set ^^ k) (set base) \<noteq> {}" for k using assms by (simp add: rot_pow_empty_iff)
  have normd: "finite v \<and> v \<noteq> {} \<and> Min (fst ` v) = 0 \<and> Min (snd ` v) = 0" if "v \<in> set r" for v
  proof -
    from that s obtain k where v: "v = ?N k" by auto
    show ?thesis unfolding v using norm_set_min [OF fin ne, of k] fin [of k] ne [of k]
      by (simp add: norm_set_def)
  qed
  have wrap: "?N 4 = ?N 0"
    by (simp add: funpow4 rot_set_four)
  have closed: "\<exists>w. normalize_offsets (rotate90 vs) = Inr w \<and> w \<in> set r"
    if "v \<in> set r" "set vs = v" for v vs
  proof -
    from that s obtain k where k: "k < 4" and v: "v = ?N k" by auto
    from normd [OF that(1)] that(2) have "vs \<noteq> []" by auto
    then have "normalize_offsets (rotate90 vs) = Inr (norm_set (rot_set v))"
      using that(2) by (simp add: normalize_offsets_norm_set rotate90_Nil_iff set_rotate90)
    moreover have "norm_set (rot_set v) = ?N (Suc k)"
      unfolding v using norm_rot_norm [OF fin ne, of k] by simp
    moreover have "?N (Suc k) \<in> set r"
    proof (cases "Suc k < 4")
      case True
      then show ?thesis unfolding s by blast
    next
      case False
      with k have "Suc k = 4" by simp
      then have "?N (Suc k) = ?N 0" using wrap by simp
      moreover have "?N 0 \<in> ?N ` {..<4}" by (rule imageI) simp
      ultimately show ?thesis unfolding s by simp
    qed
    ultimately show ?thesis by simp
  qed
  from n have "1 \<le> length r" by (cases r) auto
  with r l d normd closed show ?thesis by blast
qed

theorem get_rotations_spec_witness:
  "[(0, 0), (1, 0)] \<noteq> ([] :: offset list) \<and>
   get_rotations [(0, 0), (1, 0)] = Inr [{(0, 0), (1, 0)}, {(0, 0), (0, 1)}] \<and>
   {(0, 0), (1, 0)} \<in> set [{(0, 0), (1, 0)}, {(0, 0), (0, 1)} :: offset set] \<and>
   normalize_offsets (rotate90 [(0, 0), (1, 0)]) = Inr {(0, 0), (0, 1)} \<and>
   (\<exists>r. get_rotations [(0, 0), (1, 0)] = Inr r \<and>
     1 \<le> length r \<and> length r \<le> 4 \<and> distinct r \<and>
     (\<forall>v \<in> set r. finite v \<and> v \<noteq> {} \<and> Min (fst ` v) = 0 \<and> Min (snd ` v) = 0) \<and>
     (\<forall>v \<in> set r. \<forall>vs. set vs = v \<longrightarrow>
        (\<exists>w. normalize_offsets (rotate90 vs) = Inr w \<and> w \<in> set r)))"
proof -
  have h: "[(0, 0), (1, 0)] \<noteq> ([] :: offset list)" by simp
  have e: "get_rotations [(0, 0), (1, 0)] = Inr [{(0, 0), (1, 0)}, {(0, 0), (0, 1)}]"
    by code_simp
  have n: "normalize_offsets (rotate90 [(0, 0), (1, 0)]) = Inr {(0, 0), (0, 1)}"
    by code_simp
  from get_rotations_spec [OF h] h e n show ?thesis by simp
qed

section \<open>The contents of the shape table\<close>

lemma rotations_SUBMARINE:
  "get_rotations [(0, 0), (1, 0), (2, 0)] = Inr [{(0, 0), (1, 0), (2, 0)}, {(0, 0), (0, 1), (0, 2)}]"
  by code_simp

lemma rotations_DESTROYER:
  "get_rotations [(0, 0), (1, 0), (2, 0), (3, 0)] =
     Inr [{(0, 0), (1, 0), (2, 0), (3, 0)}, {(0, 0), (0, 1), (0, 2), (0, 3)}]"
  by code_simp

lemma rotations_JET:
  "get_rotations [(- 1, 0), (0, 0), (1, 0), (0, - 1), (0, 1), (0, 2)] =
     Inr [{(0, 1), (1, 1), (2, 1), (1, 0), (1, 2), (1, 3)},
          {(1, 2), (1, 1), (1, 0), (0, 1), (2, 1), (3, 1)},
          {(2, 2), (1, 2), (0, 2), (1, 3), (1, 1), (1, 0)},
          {(2, 0), (2, 1), (2, 2), (3, 1), (1, 1), (0, 1)}]"
  by code_simp

lemma normalize_GENERAL: "normalize_offsets [(0, 0)] = Inr {(0, 0)}"
  by code_simp

lemma SHAPES_2D_SUBMARINE:
  "SHAPES_2D SUBMARINE = [{(0, 0), (1, 0), (2, 0)}, {(0, 0), (0, 1), (0, 2)}]"
  by (simp add: SHAPES_2D_def rotations_SUBMARINE)

lemma SHAPES_2D_DESTROYER:
  "SHAPES_2D DESTROYER = [{(0, 0), (1, 0), (2, 0), (3, 0)}, {(0, 0), (0, 1), (0, 2), (0, 3)}]"
  by (simp add: SHAPES_2D_def rotations_DESTROYER)

lemma SHAPES_2D_JET:
  "SHAPES_2D JET =
     [{(0, 1), (1, 1), (2, 1), (1, 0), (1, 2), (1, 3)},
      {(1, 2), (1, 1), (1, 0), (0, 1), (2, 1), (3, 1)},
      {(2, 2), (1, 2), (0, 2), (1, 3), (1, 1), (1, 0)},
      {(2, 0), (2, 1), (2, 2), (3, 1), (1, 1), (0, 1)}]"
  by (simp add: SHAPES_2D_def rotations_JET)

lemma SHAPES_2D_GENERAL: "SHAPES_2D GENERAL = [{(0, 0)}]"
  by (simp add: SHAPES_2D_def normalize_GENERAL)

lemmas SHAPES_2D_table =
  SHAPES_2D_SUBMARINE SHAPES_2D_DESTROYER SHAPES_2D_JET SHAPES_2D_GENERAL

lemma SHAPES_2D_nonempty: "SHAPES_2D ptype \<noteq> []"
  by (cases ptype) (simp_all add: SHAPES_2D_table)

lemma shape_facts:
  assumes "shape \<in> set (SHAPES_2D ptype)"
  shows "finite shape" "shape \<noteq> {}" "card shape = shape_size ptype"
    "\<forall>(x, y) \<in> shape. 0 \<le> x \<and> 0 \<le> y"
  using assms by (cases ptype; auto simp: SHAPES_2D_table shape_size_def)+


section \<open>Placement\<close>

lemma place_attempt_Some:
  assumes "place_attempt ptype rnd b k = Inr (Some b', k')"
  shows "\<exists>shape x0 y0.
     shape \<in> set (SHAPES_2D ptype) \<and>
     0 \<le> x0 \<and> x0 < cols b - Max (fst ` shape) \<and>
     0 \<le> y0 \<and> y0 < rows b - Max (snd ` shape) \<and>
     (ptype = GENERAL \<longrightarrow> 0 < depth b) \<and>
     (\<forall>c \<in> shape_cells shape x0 y0 (type_layer ptype rnd b k). occupied b c = None) \<and>
     b' = add_piece b \<lparr>piece_type = ptype,
            coords = shape_cells shape x0 y0 (type_layer ptype rnd b k), hits = {}\<rparr>"
proof -
  define shape where "shape = SHAPES_2D ptype ! (rnd k mod length (SHAPES_2D ptype))"
  define k1 where "k1 = (if ptype = GENERAL then k + 2 else k + 1)"
  define x0 where "x0 = int (rnd k1) mod (cols b - Max (fst ` shape))"
  define y0 where "y0 = int (rnd (k1 + 1)) mod (rows b - Max (snd ` shape))"
  define cells where "cells = shape_cells shape x0 y0 (type_layer ptype rnd b k)"
  have ne: "SHAPES_2D ptype \<noteq> []" by (rule SHAPES_2D_nonempty)
  then have mem: "shape \<in> set (SHAPES_2D ptype)" by (simp add: shape_def)
  have sne: "shape \<noteq> {}" using shape_facts(2) [OF mem] .
  have body: "place_attempt ptype rnd b k =
      (if ptype = GENERAL \<and> depth b \<le> 0 then Inl (ValueError EmptyRange)
       else if cols b - Max (fst ` shape) \<le> 0 then Inl (ValueError EmptyRange)
       else if rows b - Max (snd ` shape) \<le> 0 then Inl (ValueError EmptyRange)
       else if \<exists>c \<in> cells. occupied b c \<noteq> None then Inr (None, k1 + 2)
       else Inr (Some (add_piece b \<lparr>piece_type = ptype, coords = cells, hits = {}\<rparr>), k1 + 2))"
    using ne sne
    by (simp add: place_attempt_def bind_exn_def choice_def max_of_def randrange_def
        add_piece_def shape_cells_def type_layer_def Let_def
        shape_def [symmetric] k1_def x0_def y0_def cells_def)
  from assms have pos: "ptype = GENERAL \<longrightarrow> 0 < depth b"
    "0 < cols b - Max (fst ` shape)" "0 < rows b - Max (snd ` shape)"
    and free: "\<forall>c \<in> cells. occupied b c = None"
    and b': "b' = add_piece b \<lparr>piece_type = ptype, coords = cells, hits = {}\<rparr>"
    unfolding body by (auto split: if_splits)
  from pos have "0 \<le> x0" "x0 < cols b - Max (fst ` shape)"
    "0 \<le> y0" "y0 < rows b - Max (snd ` shape)"
    by (simp_all add: x0_def y0_def)
  with mem pos(1) free b' show ?thesis
    unfolding cells_def by blast
qed

lemma place_attempts_invariant:
  assumes step: "\<And>b k b' k'. P b \<Longrightarrow> place_attempt ptype rnd b k = Inr (Some b', k') \<Longrightarrow> P b'"
    and "P b" and "place_attempts n ptype rnd b k = Inr (b', k')"
  shows "P b'"
  using assms(2,3)
proof (induction n arbitrary: k)
  case 0
  then show ?case by simp
next
  case (Suc n)
  then show ?case
    by (auto split: sum.splits option.splits dest: step)
qed

lemma place_n_invariant:
  assumes step: "\<And>b k b' k'. P b \<Longrightarrow> place_attempt ptype rnd b k = Inr (Some b', k') \<Longrightarrow> P b'"
    and "P b" and "place_n n ptype rnd b k = (e, b', k')"
  shows "P b'"
  using assms(2,3)
proof (induction n arbitrary: b k)
  case 0
  then show ?case by simp
next
  case (Suc n)
  show ?case
  proof (cases "place_random ptype rnd b k")
    case (Inl x)
    with Suc.prems show ?thesis by simp
  next
    case (Inr r)
    obtain b1 k1 where r: "r = (b1, k1)" by (cases r)
    from Inr r have "place_attempts 1000 ptype rnd b k = Inr (b1, k1)"
      by (simp add: place_random_def)
    from place_attempts_invariant [of P, OF step Suc.prems(1) this] have "P b1" .
    moreover from Suc.prems(2) Inr r have "place_n n ptype rnd b1 k1 = (e, b', k')" by simp
    ultimately show ?thesis by (rule Suc.IH)
  qed
qed

lemma place_counts_invariant:
  assumes step: "\<And>ptype b k b' k'. P b \<Longrightarrow> place_attempt ptype rnd b k = Inr (Some b', k') \<Longrightarrow> P b'"
    and "P b" and "place_counts cnts rnd b k = (e, b', k')"
  shows "P b'"
  using assms(2,3)
proof (induction cnts arbitrary: b k)
  case Nil
  then show ?case by simp
next
  case (Cons a cnts)
  obtain ptype num where a: "a = (ptype, num)" by (cases a)
  obtain e1 b1 k1 where n: "place_n (nat num) ptype rnd b k = (e1, b1, k1)"
    by (cases "place_n (nat num) ptype rnd b k")
  from place_n_invariant [of P, OF step Cons.prems(1) n] have b1: "P b1" .
  show ?case
  proof (cases e1)
    case None
    with Cons.prems(2) a n have "place_counts cnts rnd b1 k1 = (e, b', k')" by simp
    with b1 show ?thesis by (rule Cons.IH)
  next
    case (Some x)
    with Cons.prems(2) a n b1 show ?thesis by simp
  qed
qed

lemma place_all_invariant:
  assumes step: "\<And>ptype b k b' k'. P b \<Longrightarrow> place_attempt ptype rnd b k = Inr (Some b', k') \<Longrightarrow> P b'"
    and "P b" and "place_all cnts rnd b k = (e, b', k')"
  shows "P b'"
proof (cases "counts_get cnts GENERAL 0 \<noteq> 1 \<or> check_counts b cnts \<noteq> None")
  case True
  with assms(3) have "b' = b" by (auto simp: place_all_def split: if_splits)
  with assms(2) show ?thesis by simp
next
  case False
  with assms(3) have "place_counts cnts rnd b k = (e, b', k')" by (auto simp: place_all_def)
  from place_counts_invariant [of P, OF step assms(2) this] show ?thesis .
qed

lemma index_exact_add_piece:
  assumes "index_exact b" and "\<forall>c \<in> coords p. occupied b c = None"
  shows "index_exact (add_piece b p)"
proof -
  have free: "occupied b c \<noteq> Some i" if "c \<in> coords p" for c i
    using assms(2) that by simp
  have old: "occupied b c = Some i \<longleftrightarrow> i < length (pieces b) \<and> c \<in> coords (pieces b ! i)"
    for c i
    using assms(1) unfolding index_exact_def by blast
  show ?thesis
    unfolding index_exact_def add_piece_def
  proof (intro allI)
    fix c i
    show "occupied (b\<lparr>occupied := \<lambda>c. if c \<in> coords p then Some (length (pieces b))
                                          else occupied b c,
                    pieces := pieces b @ [p]\<rparr>) c = Some i \<longleftrightarrow>
          i < length (pieces (b\<lparr>occupied := \<lambda>c. if c \<in> coords p then Some (length (pieces b))
                                          else occupied b c,
                    pieces := pieces b @ [p]\<rparr>)) \<and>
          c \<in> coords (pieces (b\<lparr>occupied := \<lambda>c. if c \<in> coords p then Some (length (pieces b))
                                          else occupied b c,
                    pieces := pieces b @ [p]\<rparr>) ! i)"
    proof (cases "c \<in> coords p")
      case True
      with free [OF True] old [of c] show ?thesis
        by (auto simp: nth_append less_Suc_eq)
    next
      case False
      with old [of c i] show ?thesis
        by (auto simp: nth_append less_Suc_eq)
    qed
  qed
qed

lemma index_exact_disjoint: "index_exact b \<Longrightarrow> pairwise_disjoint b"
  unfolding index_exact_def pairwise_disjoint_def
  by (metis disjoint_iff option.inject)

lemma card_shape_cells:
  "card (shape_cells shape x0 y0 z) = card shape"
  unfolding shape_cells_def by (rule card_image) (auto simp: inj_on_def)

lemma sizes_ok_add_piece:
  assumes "sizes_ok b" and "card (coords p) = shape_size (piece_type p)"
  shows "sizes_ok (add_piece b p)"
  using assms unfolding sizes_ok_def add_piece_def by auto

lemma place_attempt_index_sizes:
  assumes "index_exact b \<and> sizes_ok b" and "place_attempt ptype rnd b k = Inr (Some b', k')"
  shows "index_exact b' \<and> sizes_ok b'"
proof -
  from place_attempt_Some [OF assms(2)] obtain shape x0 y0 where
    sh: "shape \<in> set (SHAPES_2D ptype)"
    and free: "\<forall>c \<in> shape_cells shape x0 y0 (type_layer ptype rnd b k). occupied b c = None"
    and b': "b' = add_piece b \<lparr>piece_type = ptype,
            coords = shape_cells shape x0 y0 (type_layer ptype rnd b k), hits = {}\<rparr>"
    by blast
  show ?thesis unfolding b'
    using assms(1) free shape_facts(3) [OF sh]
    by (simp add: index_exact_add_piece sizes_ok_add_piece card_shape_cells)
qed

text \<open>
  C7: after a successful \<open>place_all\<close> on a board whose index is exact and whose pieces
  have their types' sizes (a fresh board is one), the coordinate index maps every occupied
  coordinate to the one piece whose cells contain it, distinct pieces share no cell, and
  every piece has its type's number of cells: 3, 4, 6 and 1.
\<close>

theorem place_all_collision_free:
  assumes "index_exact b" and "sizes_ok b" and "fst (place_all cnts rnd b k) = None"
  shows "index_exact (fst (snd (place_all cnts rnd b k))) \<and>
    pairwise_disjoint (fst (snd (place_all cnts rnd b k))) \<and>
    sizes_ok (fst (snd (place_all cnts rnd b k)))"
proof -
  obtain e b' k' where r: "place_all cnts rnd b k = (e, b', k')"
    by (cases "place_all cnts rnd b k")
  have "index_exact b' \<and> sizes_ok b'"
  proof (rule place_all_invariant [of "\<lambda>b. index_exact b \<and> sizes_ok b", OF _ _ r])
    show "index_exact b \<and> sizes_ok b" using assms by simp
  qed (rule place_attempt_index_sizes)
  then show ?thesis by (simp add: r index_exact_disjoint)
qed

theorem place_all_collision_free_witness:
  "index_exact (Board3D_init 3 5 5) \<and> sizes_ok (Board3D_init 3 5 5) \<and>
   fst (place_all [(SUBMARINE, 1), (DESTROYER, 1), (JET, 1), (GENERAL, 1)] (\<lambda>k. k)
          (Board3D_init 3 5 5) 0) = None \<and>
   length (pieces (fst (snd (place_all [(SUBMARINE, 1), (DESTROYER, 1), (JET, 1), (GENERAL, 1)]
          (\<lambda>k. k) (Board3D_init 3 5 5) 0)))) = 4 \<and>
   index_exact (fst (snd (place_all [(SUBMARINE, 1), (DESTROYER, 1), (JET, 1), (GENERAL, 1)]
          (\<lambda>k. k) (Board3D_init 3 5 5) 0))) \<and>
   pairwise_disjoint (fst (snd (place_all [(SUBMARINE, 1), (DESTROYER, 1), (JET, 1), (GENERAL, 1)]
          (\<lambda>k. k) (Board3D_init 3 5 5) 0))) \<and>
   sizes_ok (fst (snd (place_all [(SUBMARINE, 1), (DESTROYER, 1), (JET, 1), (GENERAL, 1)]
          (\<lambda>k. k) (Board3D_init 3 5 5) 0))) \<and>
   shape_size SUBMARINE = 3 \<and> shape_size DESTROYER = 4 \<and> shape_size JET = 6 \<and>
   shape_size GENERAL = 1"
proof -
  have h1: "index_exact (Board3D_init 3 5 5)"
    by (simp add: index_exact_def Board3D_init_def)
  have h2: "sizes_ok (Board3D_init 3 5 5)"
    by (simp add: sizes_ok_def Board3D_init_def)
  have h3: "fst (place_all [(SUBMARINE, 1), (DESTROYER, 1), (JET, 1), (GENERAL, 1)] (\<lambda>k. k)
          (Board3D_init 3 5 5) 0) = None"
    by code_simp
  have h4: "length (pieces (fst (snd (place_all [(SUBMARINE, 1), (DESTROYER, 1), (JET, 1),
          (GENERAL, 1)] (\<lambda>k. k) (Board3D_init 3 5 5) 0)))) = 4"
    by code_simp
  from place_all_collision_free [OF h1 h2 h3] h1 h2 h3 h4 show ?thesis
    by (simp add: shape_size_def)
qed

section \<open>Bounds of the placed pieces\<close>

lemma add_piece_fields [simp]:
  "depth (add_piece b p) = depth b" "rows (add_piece b p) = rows b"
  "cols (add_piece b p) = cols b" "pieces (add_piece b p) = pieces b @ [p]"
  by (simp_all add: add_piece_def)

lemma type_layer_range:
  assumes "ptype = GENERAL \<longrightarrow> 0 < depth b"
  shows "ptype = GENERAL \<Longrightarrow> 0 \<le> type_layer ptype rnd b k \<and> type_layer ptype rnd b k < depth b"
    and "ptype \<noteq> GENERAL \<Longrightarrow> type_layer ptype rnd b k = enum_value ptype - 1"
  using assms by (simp_all add: type_layer_def)

lemma on_type_layer_z_within:
  assumes "on_type_layer p" and "enum_value (piece_type p) \<le> depth b"
  shows "z_within b p"
proof -
  have "1 \<le> enum_value (piece_type p)" by (cases "piece_type p") simp_all
  with assms show ?thesis
    by (fastforce simp: on_type_layer_def z_within_def)
qed

lemma enum_value_le_3: "enum_value ptype \<le> 3 \<or> ptype = GENERAL"
  by (cases ptype) simp_all

lemma shape_offset_le_Max:
  assumes "shape \<in> set (SHAPES_2D ptype)" "(x, y) \<in> shape"
  shows "0 \<le> x" "x \<le> Max (fst ` shape)" "0 \<le> y" "y \<le> Max (snd ` shape)"
proof -
  have fin: "finite shape" using shape_facts(1) [OF assms(1)] .
  from shape_facts(4) [OF assms(1)] assms(2) show "0 \<le> x" "0 \<le> y" by auto
  from fin assms(2) show "x \<le> Max (fst ` shape)" by (intro Max_ge) (auto simp: image_iff intro: bexI [of _ "(x, y)"])
  from fin assms(2) show "y \<le> Max (snd ` shape)" by (intro Max_ge) (auto simp: image_iff intro: bexI [of _ "(x, y)"])
qed

lemma place_attempt_bounds:
  assumes "depth b = d \<and> rows b = r \<and> cols b = c \<and> within_bounds_by_design b"
    and "place_attempt ptype rnd b k = Inr (Some b', k')"
  shows "depth b' = d \<and> rows b' = r \<and> cols b' = c \<and> within_bounds_by_design b'"
proof -
  from place_attempt_Some [OF assms(2)] obtain shape x0 y0 where
    sh: "shape \<in> set (SHAPES_2D ptype)"
    and x0: "0 \<le> x0" "x0 < cols b - Max (fst ` shape)"
    and y0: "0 \<le> y0" "y0 < rows b - Max (snd ` shape)"
    and dp: "ptype = GENERAL \<longrightarrow> 0 < depth b"
    and b': "b' = add_piece b \<lparr>piece_type = ptype,
            coords = shape_cells shape x0 y0 (type_layer ptype rnd b k), hits = {}\<rparr>"
    by blast
  let ?z = "type_layer ptype rnd b k"
  let ?p = "\<lparr>piece_type = ptype, coords = shape_cells shape x0 y0 ?z, hits = {}\<rparr>"
  have xy: "xy_within b ?p"
    unfolding xy_within_def shape_cells_def
    using x0 y0 shape_offset_le_Max [OF sh] by fastforce
  have zg: "piece_type ?p = GENERAL \<longrightarrow> z_within b ?p"
    using type_layer_range(1) [OF dp] by (auto simp: z_within_def shape_cells_def)
  have zt: "piece_type ?p \<noteq> GENERAL \<longrightarrow> on_type_layer ?p"
    using type_layer_range(2) [OF dp] by (auto simp: on_type_layer_def shape_cells_def)
  have old: "within_bounds_by_design b" using assms(1) by simp
  have "within_bounds_by_design b'"
    unfolding b' within_bounds_by_design_def
  proof
    fix p assume "p \<in> set (pieces (add_piece b ?p))"
    then consider "p \<in> set (pieces b)" | "p = ?p" by auto
    then show "xy_within (add_piece b ?p) p \<and>
        (piece_type p = GENERAL \<longrightarrow> z_within (add_piece b ?p) p) \<and>
        (piece_type p \<noteq> GENERAL \<longrightarrow> on_type_layer p)"
    proof cases
      case 1
      with old show ?thesis
        by (simp add: within_bounds_by_design_def xy_within_def z_within_def)
    next
      case 2
      with xy zg zt show ?thesis
        by (simp add: xy_within_def z_within_def)
    qed
  qed
  with assms(1) show ?thesis by (simp add: b')
qed

lemma place_all_fields:
  assumes "place_all cnts rnd b k = (e, b', k')"
  shows "depth b' = depth b \<and> rows b' = rows b \<and> cols b' = cols b"
proof (rule place_all_invariant
    [of "\<lambda>x. depth x = depth b \<and> rows x = rows b \<and> cols x = cols b", OF _ _ assms])
  show "depth b = depth b \<and> rows b = rows b \<and> cols b = cols b" by simp
next
  fix ptype b0 k0 b1 k1
  assume "depth b0 = depth b \<and> rows b0 = rows b \<and> cols b0 = cols b"
    and "place_attempt ptype rnd b0 k0 = Inr (Some b1, k1)"
  then show "depth b1 = depth b \<and> rows b1 = rows b \<and> cols b1 = cols b"
    using place_attempt_Some [of ptype rnd b0 k0 b1 k1] by auto
qed

text \<open>
  C5, as amended: after a successful \<open>place_all\<close> (on a board whose pieces, if any, lie as
  the placement puts them) every cell of every piece has its column and row within
  bounds; its layer is within bounds for the general and for every piece whose type's
  layer (0 for a submarine, 1 for a destroyer, 2 for a jet) is below the number of
  layers; a piece of another type lies on the layer of its type. So a board with at
  least three layers is within bounds, and so is a board with fewer layers that holds
  only types whose layers it has.
\<close>

theorem place_all_within_bounds:
  assumes "within_bounds_by_design b" and "fst (place_all cnts rnd b k) = None"
  shows "within_bounds_by_design (fst (snd (place_all cnts rnd b k))) \<and>
    (\<forall>p \<in> set (pieces (fst (snd (place_all cnts rnd b k)))).
       piece_type p = GENERAL \<or> enum_value (piece_type p) \<le> depth b \<longrightarrow>
         xy_within (fst (snd (place_all cnts rnd b k))) p \<and>
         z_within (fst (snd (place_all cnts rnd b k))) p) \<and>
    (3 \<le> depth b \<longrightarrow> within_bounds (fst (snd (place_all cnts rnd b k))))"
proof -
  obtain e b' k' where r: "place_all cnts rnd b k = (e, b', k')"
    by (cases "place_all cnts rnd b k")
  have "depth b' = depth b \<and> rows b' = rows b \<and> cols b' = cols b \<and> within_bounds_by_design b'"
  proof (rule place_all_invariant [of "\<lambda>x. depth x = depth b \<and> rows x = rows b \<and>
      cols x = cols b \<and> within_bounds_by_design x", OF _ _ r])
    show "depth b = depth b \<and> rows b = rows b \<and> cols b = cols b \<and> within_bounds_by_design b"
      using assms(1) by simp
  qed (rule place_attempt_bounds)
  then have d: "depth b' = depth b" and w: "within_bounds_by_design b'" by simp_all
  have each: "xy_within b' p \<and> z_within b' p"
    if "p \<in> set (pieces b')" "piece_type p = GENERAL \<or> enum_value (piece_type p) \<le> depth b"
    for p
  proof (cases "piece_type p = GENERAL")
    case True
    with w that(1) show ?thesis by (simp add: within_bounds_by_design_def)
  next
    case False
    with w that(1) have "xy_within b' p" "on_type_layer p"
      by (simp_all add: within_bounds_by_design_def)
    moreover from False that(2) d have "enum_value (piece_type p) \<le> depth b'" by simp
    ultimately show ?thesis by (simp add: on_type_layer_z_within)
  qed
  have all: "within_bounds b'" if "3 \<le> depth b"
    unfolding within_bounds_def
  proof
    fix p assume p: "p \<in> set (pieces b')"
    from enum_value_le_3 [of "piece_type p"] that
    have "piece_type p = GENERAL \<or> enum_value (piece_type p) \<le> depth b" by auto
    with p show "xy_within b' p \<and> z_within b' p" by (rule each)
  qed
  from w each all show ?thesis by (simp add: r)
qed

theorem place_all_within_bounds_witness:
  "within_bounds_by_design (Board3D_init 3 5 5) \<and> 3 \<le> depth (Board3D_init 3 5 5) \<and>
   fst (place_all [(SUBMARINE, 1), (DESTROYER, 1), (JET, 1), (GENERAL, 1)] (\<lambda>k. k)
          (Board3D_init 3 5 5) 0) = None \<and>
   length (pieces (fst (snd (place_all [(SUBMARINE, 1), (DESTROYER, 1), (JET, 1), (GENERAL, 1)]
          (\<lambda>k. k) (Board3D_init 3 5 5) 0)))) = 4 \<and>
   within_bounds (fst (snd (place_all [(SUBMARINE, 1), (DESTROYER, 1), (JET, 1), (GENERAL, 1)]
          (\<lambda>k. k) (Board3D_init 3 5 5) 0))) \<and>
   within_bounds_by_design (Board3D_init 1 5 5) \<and>
   fst (place_all [(SUBMARINE, 1), (GENERAL, 1)] (\<lambda>k. k) (Board3D_init 1 5 5) 0) = None \<and>
   map piece_type (pieces (fst (snd (place_all [(SUBMARINE, 1), (GENERAL, 1)] (\<lambda>k. k)
          (Board3D_init 1 5 5) 0)))) = [SUBMARINE, GENERAL] \<and>
   enum_value SUBMARINE \<le> depth (Board3D_init 1 5 5) \<and>
   within_bounds (fst (snd (place_all [(SUBMARINE, 1), (GENERAL, 1)] (\<lambda>k. k)
          (Board3D_init 1 5 5) 0)))"
proof -
  let ?B = "fst (snd (place_all [(SUBMARINE, 1), (GENERAL, 1)] (\<lambda>k. k) (Board3D_init 1 5 5) 0))"
  have h1: "within_bounds_by_design (Board3D_init 3 5 5)"
    by (simp add: within_bounds_by_design_def Board3D_init_def)
  have h2: "fst (place_all [(SUBMARINE, 1), (DESTROYER, 1), (JET, 1), (GENERAL, 1)] (\<lambda>k. k)
          (Board3D_init 3 5 5) 0) = None"
    by code_simp
  have h3: "length (pieces (fst (snd (place_all [(SUBMARINE, 1), (DESTROYER, 1), (JET, 1),
          (GENERAL, 1)] (\<lambda>k. k) (Board3D_init 3 5 5) 0)))) = 4"
    by code_simp
  have h4: "3 \<le> depth (Board3D_init 3 5 5)"
    by (simp add: Board3D_init_def)
  have g1: "within_bounds_by_design (Board3D_init 1 5 5)"
    by (simp add: within_bounds_by_design_def Board3D_init_def)
  have g2: "fst (place_all [(SUBMARINE, 1), (GENERAL, 1)] (\<lambda>k. k) (Board3D_init 1 5 5) 0) = None"
    by code_simp
  have g3: "map piece_type (pieces ?B) = [SUBMARINE, GENERAL]"
    by code_simp
  have g4: "enum_value SUBMARINE \<le> depth (Board3D_init 1 5 5)"
    by (simp add: Board3D_init_def)
  have g5: "\<forall>p \<in> set (pieces ?B).
      piece_type p = GENERAL \<or> enum_value (piece_type p) \<le> depth (Board3D_init 1 5 5)"
  proof
    fix p assume "p \<in> set (pieces ?B)"
    then have "piece_type p \<in> set (map piece_type (pieces ?B))" by simp
    then show "piece_type p = GENERAL \<or> enum_value (piece_type p) \<le> depth (Board3D_init 1 5 5)"
      unfolding g3 using g4 by auto
  qed
  from place_all_within_bounds [OF g1 g2] g5 have g6: "within_bounds ?B"
    unfolding within_bounds_def by blast
  from place_all_within_bounds [OF h1 h2] h1 h2 h3 h4 g1 g2 g3 g4 g6 show ?thesis by simp
qed

text \<open>
  C5, as stated, fails on a board with one layer: the jet is placed on layer 2.
\<close>

theorem place_all_out_of_depth:
  "0 < depth (Board3D_init 1 5 5) \<and>
   fst (place_all [(GENERAL, 1), (JET, 1)] (\<lambda>k. 0) (Board3D_init 1 5 5) 0) = None \<and>
   \<not> within_bounds (fst (snd (place_all [(GENERAL, 1), (JET, 1)] (\<lambda>k. 0) (Board3D_init 1 5 5) 0)))"
  by code_simp

section \<open>Validation in \<open>place_all\<close>\<close>

lemma module_shapes_no_raise:
  "get_rotations (base_offsets SUBMARINE) = Inr (SHAPES_2D SUBMARINE)"
  "get_rotations (base_offsets DESTROYER) = Inr (SHAPES_2D DESTROYER)"
  "get_rotations (base_offsets JET) = Inr (SHAPES_2D JET)"
  "normalize_offsets (base_offsets GENERAL) = Inr (SHAPES_2D GENERAL ! 0)"
  by (simp_all add: base_offsets_def SHAPES_2D_table rotations_SUBMARINE rotations_DESTROYER
      rotations_JET normalize_GENERAL)

lemma bbox_values:
  "bbox_width (base_offsets SUBMARINE) = 3" "bbox_height (base_offsets SUBMARINE) = 1"
  "bbox_width (base_offsets DESTROYER) = 4" "bbox_height (base_offsets DESTROYER) = 1"
  "bbox_width (base_offsets JET) = 3" "bbox_height (base_offsets JET) = 4"
  "bbox_width (base_offsets GENERAL) = 1" "bbox_height (base_offsets GENERAL) = 1"
  by (simp_all add: bbox_width_def bbox_height_def base_offsets_def)

lemma max_count_capacity: "max_count b ptype = Inr (capacity (rows b) (cols b) ptype)"
  by (cases ptype)
    (simp_all add: max_count_def capacity_def bbox_values SHAPES_2D_table bind_exn_def
      max_of_def min_of_def Let_def)

lemma check_counts_None_iff:
  "check_counts b cnts = None \<longleftrightarrow>
     (\<forall>(p, n) \<in> set cnts. p \<noteq> GENERAL \<longrightarrow> n \<le> capacity (rows b) (cols b) p)"
  by (induction cnts) (auto simp: max_count_capacity split: if_splits)

lemma check_counts_Some:
  "check_counts b cnts = Some e \<Longrightarrow>
     \<exists>p n. (p, n) \<in> set cnts \<and> p \<noteq> GENERAL \<and> capacity (rows b) (cols b) p < n \<and>
       e = ValueError (CannotPlaceOnLayer p n (capacity (rows b) (cols b) p))"
  by (induction cnts) (auto simp: max_count_capacity split: if_splits)

lemma place_attempt_raises:
  assumes "place_attempt ptype rnd b k = Inl e"
  shows "e = ValueError EmptyRange"
proof -
  let ?shapes = "SHAPES_2D ptype"
  let ?shape = "?shapes ! (rnd k mod length ?shapes)"
  have ne: "?shapes \<noteq> []" by (rule SHAPES_2D_nonempty)
  then have mem: "?shape \<in> set ?shapes" by simp
  have sne: "?shape \<noteq> {}" using shape_facts(2) [OF mem] .
  show ?thesis
    using assms ne sne
    unfolding place_attempt_def bind_exn_def choice_def max_of_def randrange_def Let_def
    by (simp split: if_splits)
qed

lemma place_attempts_raises:
  "place_attempts n ptype rnd b k = Inl e \<Longrightarrow>
     e = ValueError EmptyRange \<or> e = RuntimeError (CannotPlacePiece ptype)"
proof (induction n arbitrary: k)
  case 0
  then show ?case by simp
next
  case (Suc n)
  then show ?case
    by (auto split: sum.splits option.splits dest: place_attempt_raises)
qed

lemma place_n_raises:
  "place_n n ptype rnd b k = (Some e, b', k') \<Longrightarrow>
     e = ValueError EmptyRange \<or> e = RuntimeError (CannotPlacePiece ptype)"
proof (induction n arbitrary: b k)
  case 0
  then show ?case by simp
next
  case (Suc n)
  then show ?case
    by (auto simp: place_random_def split: sum.splits dest: place_attempts_raises)
qed

lemma place_counts_raises:
  "place_counts cnts rnd b k = (Some e, b', k') \<Longrightarrow>
     e = ValueError EmptyRange \<or> (\<exists>p. e = RuntimeError (CannotPlacePiece p))"
proof (induction cnts arbitrary: b k)
  case Nil
  then show ?case by simp
next
  case (Cons a cnts)
  obtain ptype num where a: "a = (ptype, num)" by (cases a)
  obtain e1 b1 k1 where n: "place_n (nat num) ptype rnd b k = (e1, b1, k1)"
    by (cases "place_n (nat num) ptype rnd b k")
  show ?case
  proof (cases e1)
    case None
    with Cons.prems a n have "place_counts cnts rnd b1 k1 = (Some e, b', k')" by simp
    then show ?thesis by (rule Cons.IH)
  next
    case (Some x)
    with Cons.prems a n have "e = x" by simp
    with place_n_raises [of "nat num" ptype rnd b k x b1 k1] n Some show ?thesis by auto
  qed
qed

text \<open>
  C6: \<open>place_all\<close> raises the error of an invalid configuration exactly when the count
  of generals is not one; otherwise it raises the capacity error exactly when the count of
  some other type exceeds the capacity of a layer, with that type, its count and the
  capacity in the error; after either error the board and the random source are as
  before the call; and ten destroyers on a 5 by 5 layer raise the capacity error, with
  capacity 5.
\<close>

theorem place_all_validation:
  "(fst (place_all cnts rnd b k) = Some (ValueError ExactlyOneGeneralRequired)
      \<longleftrightarrow> counts_get cnts GENERAL 0 \<noteq> 1) \<and>
   (counts_get cnts GENERAL 0 = 1 \<longrightarrow>
      ((\<exists>p n m. fst (place_all cnts rnd b k) = Some (ValueError (CannotPlaceOnLayer p n m)))
         \<longleftrightarrow> (\<exists>(p, n) \<in> set cnts. p \<noteq> GENERAL \<and> capacity (rows b) (cols b) p < n))) \<and>
   (\<forall>p n m. fst (place_all cnts rnd b k) = Some (ValueError (CannotPlaceOnLayer p n m)) \<longrightarrow>
      (p, n) \<in> set cnts \<and> m = capacity (rows b) (cols b) p \<and> m < n) \<and>
   (fst (place_all cnts rnd b k) = Some (ValueError ExactlyOneGeneralRequired) \<or>
    (\<exists>p n m. fst (place_all cnts rnd b k) = Some (ValueError (CannotPlaceOnLayer p n m)))
      \<longrightarrow> snd (place_all cnts rnd b k) = (b, k)) \<and>
   place_all [(DESTROYER, 10), (GENERAL, 1)] rnd (Board3D_init d 5 5) k =
      (Some (ValueError (CannotPlaceOnLayer DESTROYER 10 5)), Board3D_init d 5 5, k)"
proof -
  have placing: "e \<noteq> ValueError ExactlyOneGeneralRequired \<and>
      (\<forall>p n m. e \<noteq> ValueError (CannotPlaceOnLayer p n m))"
    if "fst (place_counts cnts rnd b k) = Some e" for e
  proof -
    from that have "place_counts cnts rnd b k = (Some e, snd (place_counts cnts rnd b k))"
      by (simp add: prod_eq_iff)
    then obtain b' k' where "place_counts cnts rnd b k = (Some e, b', k')"
      by (cases "snd (place_counts cnts rnd b k)") simp
    from place_counts_raises [OF this] show ?thesis by auto
  qed
  have validating: "e \<noteq> ValueError ExactlyOneGeneralRequired"
    if "check_counts b cnts = Some e" for e
    using check_counts_Some [OF that] by auto
  have one: "fst (place_all cnts rnd b k) = Some (ValueError ExactlyOneGeneralRequired)
      \<longleftrightarrow> counts_get cnts GENERAL 0 \<noteq> 1"
    using placing validating by (auto simp: place_all_def split: option.splits)
  have cap: "(\<exists>p n m. fst (place_all cnts rnd b k) = Some (ValueError (CannotPlaceOnLayer p n m)))
         \<longleftrightarrow> (\<exists>(p, n) \<in> set cnts. p \<noteq> GENERAL \<and> capacity (rows b) (cols b) p < n)"
    if g: "counts_get cnts GENERAL 0 = 1"
  proof (cases "check_counts b cnts")
    case None
    then have "fst (place_all cnts rnd b k) = fst (place_counts cnts rnd b k)"
      using g by (simp add: place_all_def)
    moreover from None have "\<not> (\<exists>(p, n) \<in> set cnts. p \<noteq> GENERAL \<and> capacity (rows b) (cols b) p < n)"
      by (auto simp: check_counts_None_iff)
    ultimately show ?thesis using placing by auto
  next
    case (Some e)
    then have "fst (place_all cnts rnd b k) = Some e"
      using g by (simp add: place_all_def)
    with check_counts_Some [OF Some] show ?thesis by auto
  qed
  have which: "(p, n) \<in> set cnts \<and> m = capacity (rows b) (cols b) p \<and> m < n"
    if "fst (place_all cnts rnd b k) = Some (ValueError (CannotPlaceOnLayer p n m))" for p n m
  proof (cases "check_counts b cnts")
    case None
    with that placing show ?thesis
      by (auto simp: place_all_def split: if_splits)
  next
    case (Some e)
    with that check_counts_Some [OF Some] show ?thesis
      by (auto simp: place_all_def split: if_splits)
  qed
  have unchanged: "snd (place_all cnts rnd b k) = (b, k)"
    if "fst (place_all cnts rnd b k) = Some (ValueError ExactlyOneGeneralRequired) \<or>
      (\<exists>p n m. fst (place_all cnts rnd b k) = Some (ValueError (CannotPlaceOnLayer p n m)))"
    using that placing by (auto simp: place_all_def split: if_splits option.splits)
  have example: "place_all [(DESTROYER, 10), (GENERAL, 1)] rnd (Board3D_init d 5 5) k =
      (Some (ValueError (CannotPlaceOnLayer DESTROYER 10 5)), Board3D_init d 5 5, k)"
    by (simp add: place_all_def counts_get_def max_count_capacity capacity_def bbox_values
        Board3D_init_def)
  from one cap which unchanged example show ?thesis by blast
qed


theorem place_all_validation_witness:
  "counts_get [(SUBMARINE, 1)] GENERAL 0 \<noteq> 1 \<and>
   fst (place_all [(SUBMARINE, 1)] (\<lambda>k. k) (Board3D_init 3 5 5) 0)
     = Some (ValueError ExactlyOneGeneralRequired) \<and>
   snd (place_all [(SUBMARINE, 1)] (\<lambda>k. k) (Board3D_init 3 5 5) 0) = (Board3D_init 3 5 5, 0) \<and>
   counts_get [(GENERAL, 1), (JET, 2)] GENERAL 0 = 1 \<and>
   (JET, 2) \<in> set [(GENERAL, 1), (JET, 2)] \<and> capacity 5 5 JET < 2 \<and>
   fst (place_all [(GENERAL, 1), (JET, 2)] (\<lambda>k. k) (Board3D_init 3 5 5) 0)
     = Some (ValueError (CannotPlaceOnLayer JET 2 1)) \<and>
   snd (place_all [(GENERAL, 1), (JET, 2)] (\<lambda>k. k) (Board3D_init 3 5 5) 0)
     = (Board3D_init 3 5 5, 0)"
proof -
  have e: "fst (place_all [(GENERAL, 1), (JET, 2)] (\<lambda>k. k) (Board3D_init 3 5 5) 0)
     = Some (ValueError (CannotPlaceOnLayer JET 2 1))"
    by code_simp
  have c: "capacity 5 5 JET < 2"
    by (simp add: capacity_def bbox_values)
  from place_all_validation [of "[(SUBMARINE, 1)]" "\<lambda>k. k" "Board3D_init 3 5 5" 0 3]
    place_all_validation [of "[(GENERAL, 1), (JET, 2)]" "\<lambda>k. k" "Board3D_init 3 5 5" 0 3] e c
  show ?thesis
    by (simp add: counts_get_def)
qed

section \<open>The layer of a placed piece\<close>

lemma place_attempts_Some:
  "place_attempts n ptype rnd b k = Inr (b', k') \<Longrightarrow>
     \<exists>k0 k1. place_attempt ptype rnd b k0 = Inr (Some b', k1)"
proof (induction n arbitrary: k)
  case 0
  then show ?case by simp
next
  case (Suc n)
  then show ?case
    by (fastforce split: sum.splits option.splits)
qed

lemma place_attempts_first:
  assumes "place_attempt ptype rnd b k = Inr (Some b', k')" and "0 < n"
  shows "place_attempts n ptype rnd b k = Inr (b', k')"
  using assms by (cases n) simp_all

lemma randrange_range:
  "randrange rnd k n = Inr v \<Longrightarrow> 0 \<le> v \<and> v < n"
  by (auto simp: randrange_def split: if_splits)

text \<open>
  C10: a piece that \<open>_place_random\<close> places lies on one layer: a submarine on layer 0, a
  destroyer on layer 1, a jet on layer 2 (the value of the type minus one), and the
  general on the layer that \<open>random.randrange(depth)\<close> returned, a layer of the board.
  Every layer of a fresh board with a row and a column is the general's layer for some
  random source.
\<close>

theorem place_random_layer:
  "(place_random ptype rnd b k = Inr (b', k') \<longrightarrow>
      (\<exists>p z. pieces b' = pieces b @ [p] \<and> piece_type p = ptype \<and> coords p \<noteq> {} \<and>
         (\<forall>(x, y, z') \<in> coords p. z' = z) \<and>
         (ptype = SUBMARINE \<longrightarrow> z = 0) \<and> (ptype = DESTROYER \<longrightarrow> z = 1) \<and>
         (ptype = JET \<longrightarrow> z = 2) \<and> (ptype \<noteq> GENERAL \<longrightarrow> z = enum_value ptype - 1) \<and>
         (ptype = GENERAL \<longrightarrow>
            0 \<le> z \<and> z < depth b \<and> (\<exists>j. randrange rnd j (depth b) = Inr z)))) \<and>
   (0 \<le> z0 \<and> z0 < d \<and> 0 < r \<and> 0 < c \<longrightarrow>
      (\<exists>rnd' b'' k'' x y.
          place_random GENERAL rnd' (Board3D_init d r c) k = Inr (b'', k'') \<and>
          pieces b'' = [\<lparr>piece_type = GENERAL, coords = {(x, y, z0)}, hits = {}\<rparr>]))"
proof (intro conjI impI)
  assume "place_random ptype rnd b k = Inr (b', k')"
  then obtain k0 k1 where "place_attempt ptype rnd b k0 = Inr (Some b', k1)"
    unfolding place_random_def by (blast dest: place_attempts_Some)
  from place_attempt_Some [OF this] obtain shape x0 y0 where
    sh: "shape \<in> set (SHAPES_2D ptype)"
    and dp: "ptype = GENERAL \<longrightarrow> 0 < depth b"
    and b': "b' = add_piece b \<lparr>piece_type = ptype,
            coords = shape_cells shape x0 y0 (type_layer ptype rnd b k0), hits = {}\<rparr>"
    by blast
  let ?z = "type_layer ptype rnd b k0"
  let ?p = "\<lparr>piece_type = ptype, coords = shape_cells shape x0 y0 ?z, hits = {}\<rparr>"
  have "pieces b' = pieces b @ [?p]" by (simp add: b')
  moreover have "piece_type ?p = ptype" by simp
  moreover have "coords ?p \<noteq> {}"
    using shape_facts(2) [OF sh] by (simp add: shape_cells_def)
  moreover have "\<forall>(x, y, z') \<in> coords ?p. z' = ?z"
    by (auto simp: shape_cells_def)
  moreover have "ptype = SUBMARINE \<longrightarrow> ?z = 0" "ptype = DESTROYER \<longrightarrow> ?z = 1"
    "ptype = JET \<longrightarrow> ?z = 2" "ptype \<noteq> GENERAL \<longrightarrow> ?z = enum_value ptype - 1"
    by (simp_all add: type_layer_def)
  moreover have "ptype = GENERAL \<longrightarrow>
      0 \<le> ?z \<and> ?z < depth b \<and> (\<exists>j. randrange rnd j (depth b) = Inr ?z)"
  proof
    assume g: "ptype = GENERAL"
    with dp have "randrange rnd (k0 + 1) (depth b) = Inr ?z"
      by (simp add: randrange_def type_layer_def)
    with randrange_range [OF this] show
      "0 \<le> ?z \<and> ?z < depth b \<and> (\<exists>j. randrange rnd j (depth b) = Inr ?z)"
      by blast
  qed
  ultimately show "\<exists>p z. pieces b' = pieces b @ [p] \<and> piece_type p = ptype \<and> coords p \<noteq> {} \<and>
         (\<forall>(x, y, z') \<in> coords p. z' = z) \<and>
         (ptype = SUBMARINE \<longrightarrow> z = 0) \<and> (ptype = DESTROYER \<longrightarrow> z = 1) \<and>
         (ptype = JET \<longrightarrow> z = 2) \<and> (ptype \<noteq> GENERAL \<longrightarrow> z = enum_value ptype - 1) \<and>
         (ptype = GENERAL \<longrightarrow>
            0 \<le> z \<and> z < depth b \<and> (\<exists>j. randrange rnd j (depth b) = Inr z))"
    by blast
next
  assume a: "0 \<le> z0 \<and> z0 < d \<and> 0 < r \<and> 0 < c"
  let ?rnd = "\<lambda>j::nat. nat z0"
  define B where "B = Board3D_init d r c"
  have B: "depth B = d" "rows B = r" "cols B = c" "occupied B = Map.empty" "pieces B = []"
    by (simp_all add: B_def Board3D_init_def)
  let ?cells = "{(z0 mod c, z0 mod r, z0)}"
  let ?b' = "B\<lparr>occupied := (\<lambda>c. if c \<in> ?cells then Some (length (pieces B)) else occupied B c),
      pieces := pieces B @ [\<lparr>piece_type = GENERAL, coords = ?cells, hits = {}\<rparr>]\<rparr>"
  have "place_attempt GENERAL ?rnd B k = Inr (Some ?b', k + 4)"
    using a
    by (simp add: place_attempt_def SHAPES_2D_GENERAL bind_exn_def choice_def max_of_def
        randrange_def B)
  then have "place_random GENERAL ?rnd B k = Inr (?b', k + 4)"
    unfolding place_random_def by (rule place_attempts_first) simp
  moreover have "pieces ?b' = [\<lparr>piece_type = GENERAL, coords = ?cells, hits = {}\<rparr>]"
    by (simp add: B)
  ultimately show "\<exists>rnd' b'' k'' x y.
          place_random GENERAL rnd' (Board3D_init d r c) k = Inr (b'', k'') \<and>
          pieces b'' = [\<lparr>piece_type = GENERAL, coords = {(x, y, z0)}, hits = {}\<rparr>]"
    unfolding B_def by blast
qed

theorem place_random_layer_witness:
  "place_random JET (\<lambda>k. k) (Board3D_init 3 5 5) 0 =
     Inr (fst (projr (place_random JET (\<lambda>k. k) (Board3D_init 3 5 5) 0)),
          snd (projr (place_random JET (\<lambda>k. k) (Board3D_init 3 5 5) 0))) \<and>
   (\<exists>p. pieces (fst (projr (place_random JET (\<lambda>k. k) (Board3D_init 3 5 5) 0))) = [p] \<and>
        piece_type p = JET \<and> coords p \<noteq> {} \<and> (\<forall>(x, y, z') \<in> coords p. z' = 2)) \<and>
   (0::int) \<le> 1 \<and> (1::int) < 3 \<and> (0::int) < 5 \<and>
   (\<exists>rnd' b'' k'' x y.
      place_random GENERAL rnd' (Board3D_init 3 5 5) 0 = Inr (b'', k'') \<and>
      pieces b'' = [\<lparr>piece_type = GENERAL, coords = {(x, y, 1)}, hits = {}\<rparr>])"
proof -
  let ?X = "place_random JET (\<lambda>k. k) (Board3D_init 3 5 5) 0"
  have "\<not> isl ?X" by code_simp
  then have h: "?X = Inr (fst (projr ?X), snd (projr ?X))"
    by (cases ?X) auto
  from place_random_layer [of JET "\<lambda>k. k" "Board3D_init 3 5 5" 0 "fst (projr ?X)"
      "snd (projr ?X)" 1 3 5 5] h
  show ?thesis by (auto simp: Board3D_init_def)
qed

section \<open>A shape that does not fit the layer\<close>

text \<open>
  C4: on a board of 3 rows and 4 columns one destroyer passes the validation of
  \<open>place_all\<close>; when \<open>random.choice\<close> returns the vertical variant,
  \<open>random.randrange(rows - 3)\<close> raises \<open>ValueError\<close>, which is neither a placement nor
  the \<open>RuntimeError\<close> of exhausted attempts.
\<close>

theorem place_random_unfit_shape:
  "counts_get [(GENERAL, 1), (DESTROYER, 1)] GENERAL 0 = 1 \<and>
   check_counts (Board3D_init 3 3 4) [(GENERAL, 1), (DESTROYER, 1)] = None \<and>
   place_random DESTROYER (\<lambda>k. 1) (Board3D_init 3 3 4) 0 = Inl (ValueError EmptyRange) \<and>
   fst (place_all [(GENERAL, 1), (DESTROYER, 1)] (\<lambda>k. 1) (Board3D_init 3 3 4) 0)
     = Some (ValueError EmptyRange)"
proof -
  let ?X = "place_random DESTROYER (\<lambda>k. 1) (Board3D_init 3 3 4) 0"
  have "isl ?X \<and> projl ?X = ValueError EmptyRange" by code_simp
  then have "?X = Inl (ValueError EmptyRange)" by (cases ?X) auto
  moreover have "counts_get [(GENERAL, 1), (DESTROYER, 1)] GENERAL 0 = 1" by code_simp
  moreover have "check_counts (Board3D_init 3 3 4) [(GENERAL, 1), (DESTROYER, 1)] = None"
    by code_simp
  moreover have "fst (place_all [(GENERAL, 1), (DESTROYER, 1)] (\<lambda>k. 1) (Board3D_init 3 3 4) 0)
     = Some (ValueError EmptyRange)"
    by code_simp
  ultimately show ?thesis by simp
qed

section \<open>Firing at a board\<close>

lemma register_hit_snd:
  "snd (register_hit p c) = (if c \<in> coords p then p\<lparr>hits := insert c (hits p)\<rparr> else p)"
  by (simp add: register_hit_def Let_def)

lemma register_hit_fst:
  "fst (register_hit p c) =
     (if c \<notin> coords p then MISS
      else if piece_type p \<in> {SUBMARINE, JET, GENERAL} then KILL
      else if insert c (hits p) = coords p then KILL else HIT)"
  by (simp add: register_hit_def Let_def)

lemma receive_fire_snd:
  "snd (receive_fire b c) =
     (case occupied b c of None \<Rightarrow> b
      | Some i \<Rightarrow> b\<lparr>pieces := (pieces b)[i := snd (register_hit (pieces b ! i) c)]\<rparr>)"
  by (simp add: receive_fire_def split_beta Let_def split: option.splits)

lemma receive_fire_fst:
  "fst (receive_fire b c) =
     (case occupied b c of None \<Rightarrow> MISS | Some i \<Rightarrow> fst (register_hit (pieces b ! i) c))"
  by (simp add: receive_fire_def split_beta Let_def split: option.splits)

lemma grows_refl: "grows b b"
  by (simp add: grows_def)

lemma grows_trans: "grows a b \<Longrightarrow> grows b c \<Longrightarrow> grows a c"
  unfolding grows_def by (metis subset_trans)

lemma nth_list_update_any:
  "(xs[i := x]) ! j = (if i = j \<and> i < length xs then x else xs ! j)"
  by (cases "i < length xs") (simp_all add: nth_list_update list_update_beyond)

lemma grows_receive_fire: "grows b (snd (receive_fire b c))"
  unfolding grows_def receive_fire_snd
  by (simp add: register_hit_snd nth_list_update_any subset_insertI split: option.splits)

lemma grows_receive_fires: "grows b (receive_fires b cs)"
proof (induction cs arbitrary: b)
  case Nil
  show ?case by (simp add: grows_refl)
next
  case (Cons c cs)
  from grows_receive_fire [of b c] Cons [of "snd (receive_fire b c)"] show ?case
    by (auto intro: grows_trans)
qed

lemma index_exact_grows: "index_exact b \<Longrightarrow> grows b b' \<Longrightarrow> index_exact b'"
  unfolding index_exact_def grows_def by auto

lemma hits_within_receive_fire:
  assumes h: "hits_within b"
  shows "hits_within (snd (receive_fire b c))"
proof (cases "occupied b c")
  case None
  with h show ?thesis by (simp add: receive_fire_snd)
next
  case (Some i)
  show ?thesis
  proof (cases "i < length (pieces b)")
    case False
    with Some h show ?thesis by (simp add: receive_fire_snd list_update_beyond)
  next
    case True
    let ?p = "snd (register_hit (pieces b ! i) c)"
    from h True have "hits (pieces b ! i) \<subseteq> coords (pieces b ! i)"
      by (simp add: hits_within_def)
    then have new: "hits ?p \<subseteq> coords ?p" by (simp add: register_hit_snd)
    have "hits p \<subseteq> coords p" if "p \<in> set ((pieces b)[i := ?p])" for p
    proof -
      from that set_update_subset_insert [of "pieces b" i ?p]
      have "p = ?p \<or> p \<in> set (pieces b)" by auto
      with new h show ?thesis by (auto simp: hits_within_def)
    qed
    with Some show ?thesis by (simp add: receive_fire_snd hits_within_def)
  qed
qed

lemma wf_board_receive_fire: "wf_board b \<Longrightarrow> wf_board (snd (receive_fire b c))"
  unfolding wf_board_def
  by (auto intro: index_exact_grows grows_receive_fire hits_within_receive_fire)

lemma wf_board_receive_fires: "wf_board b \<Longrightarrow> wf_board (receive_fires b cs)"
  by (induction cs arbitrary: b) (simp_all add: wf_board_receive_fire)

lemma place_attempt_hits_within:
  assumes "hits_within b" and "place_attempt ptype rnd b k = Inr (Some b', k')"
  shows "hits_within b'"
  using place_attempt_Some [OF assms(2)] assms(1)
  by (auto simp: hits_within_def)

lemma wf_board_init: "wf_board (Board3D_init d r c)"
  by (simp add: wf_board_def index_exact_def hits_within_def Board3D_init_def)

lemma wf_board_place_all:
  assumes "wf_board b" and "place_all cnts rnd b k = (e, b', k')"
  shows "wf_board b'"
proof -
  have "index_exact b' \<and> sizes_ok b' \<or> index_exact b'"
  proof -
    have "index_exact b'"
    proof (rule place_all_invariant [of index_exact, OF _ _ assms(2)])
      show "index_exact b" using assms(1) by (simp add: wf_board_def)
    next
      fix ptype b0 k0 b1 k1
      assume i: "index_exact b0" and p: "place_attempt ptype rnd b0 k0 = Inr (Some b1, k1)"
      from place_attempt_Some [OF p] i show "index_exact b1"
        by (auto intro: index_exact_add_piece)
    qed
    then show ?thesis by simp
  qed
  moreover have "hits_within b'"
  proof (rule place_all_invariant [of hits_within, OF _ _ assms(2)])
    show "hits_within b" using assms(1) by (simp add: wf_board_def)
  qed (rule place_attempt_hits_within)
  ultimately show ?thesis by (auto simp: wf_board_def)
qed

lemma reachable_board_wf: "reachable_board b \<Longrightarrow> wf_board b"
proof (induction rule: reachable_board.induct)
  case (placed cnts rnd d r c k)
  show ?case
    by (rule wf_board_place_all [OF wf_board_init, of cnts rnd d r c k
          "fst (place_all cnts rnd (Board3D_init d r c) k)" _
          "snd (snd (place_all cnts rnd (Board3D_init d r c) k))"]) simp
next
  case (fired b coord)
  from fired.IH show ?case by (rule wf_board_receive_fire)
qed

lemma index_exactD:
  "index_exact b \<Longrightarrow> occupied b c = Some i \<Longrightarrow>
     i < length (pieces b) \<and> c \<in> coords (pieces b ! i)"
  unfolding index_exact_def by blast

lemma receive_fire_hit_again:
  assumes "occupied b c = Some i" "i < length (pieces b)"
    "c \<in> coords (pieces b ! i)" "c \<in> hits (pieces b ! i)"
  shows "snd (receive_fire b c) = b"
    and "fst (receive_fire b c) =
      (if piece_type (pieces b ! i) \<in> {SUBMARINE, JET, GENERAL} then KILL
       else if hits (pieces b ! i) = coords (pieces b ! i) then KILL else HIT)"
proof -
  from assms(4) have ins: "insert c (hits (pieces b ! i)) = hits (pieces b ! i)" by auto
  show "snd (receive_fire b c) = b"
    using assms(1,3) by (simp add: receive_fire_snd register_hit_snd ins)
  show "fst (receive_fire b c) =
      (if piece_type (pieces b ! i) \<in> {SUBMARINE, JET, GENERAL} then KILL
       else if hits (pieces b ! i) = coords (pieces b ! i) then KILL else HIT)"
    using assms(1,3) by (simp add: receive_fire_fst register_hit_fst ins)
qed

text \<open>
  C8, as amended: on a board reachable after placement, a later shot at a coordinate
  fired at before, whatever was fired at in between, leaves the board and its pieces as
  they are; it returns the first signal again when that was MISS or KILL; when the first
  signal was HIT (a destroyer not yet sunk), it returns KILL if all cells of that
  destroyer have been hit by then, and HIT otherwise.
\<close>

theorem receive_fire_again:
  assumes "reachable_board b"
  shows "snd (receive_fire (later_board b c cs) c) = later_board b c cs \<and>
    (fst (receive_fire b c) \<noteq> HIT \<longrightarrow>
       fst (receive_fire (later_board b c cs) c) = fst (receive_fire b c)) \<and>
    (fst (receive_fire b c) = HIT \<longrightarrow>
       (\<exists>i. occupied b c = Some i \<and> piece_type (pieces b ! i) = DESTROYER \<and>
          fst (receive_fire (later_board b c cs) c) =
            (if hits (pieces (later_board b c cs) ! i) = coords (pieces b ! i)
             then KILL else HIT)))"
proof -
  let ?b1 = "snd (receive_fire b c)"
  let ?b2 = "later_board b c cs"
  have wf: "wf_board b" using assms by (rule reachable_board_wf)
  have g1: "grows b ?b1" by (rule grows_receive_fire)
  have g2: "grows ?b1 ?b2" unfolding later_board_def by (rule grows_receive_fires)
  have g: "grows b ?b2" using g1 g2 by (rule grows_trans)
  have wf2: "wf_board ?b2"
    unfolding later_board_def using wf
    by (intro wf_board_receive_fires wf_board_receive_fire)
  show ?thesis
  proof (cases "occupied b c")
    case None
    with g have "occupied ?b2 c = None" by (simp add: grows_def)
    with None show ?thesis by (simp add: receive_fire_snd receive_fire_fst)
  next
    case (Some i)
    let ?p = "pieces b ! i"
    from wf Some have i: "i < length (pieces b)" and c: "c \<in> coords ?p"
      using index_exactD [of b c i] by (simp_all add: wf_board_def)
    have p1: "pieces ?b1 ! i = ?p\<lparr>hits := insert c (hits ?p)\<rparr>"
      using Some i c by (simp add: receive_fire_snd register_hit_snd)
    from g2 g1 i have h12: "hits (pieces ?b1 ! i) \<subseteq> hits (pieces ?b2 ! i)"
      by (simp add: grows_def)
    with p1 have hit2: "c \<in> hits (pieces ?b2 ! i)" by auto
    from g i Some have o2: "occupied ?b2 c = Some i" and l2: "i < length (pieces ?b2)"
      and t2: "piece_type (pieces ?b2 ! i) = piece_type ?p"
      and c2: "coords (pieces ?b2 ! i) = coords ?p"
      by (simp_all add: grows_def)
    from wf2 l2 have sub2: "hits (pieces ?b2 ! i) \<subseteq> coords (pieces ?b2 ! i)"
      by (simp add: wf_board_def hits_within_def)
    have again: "snd (receive_fire ?b2 c) = ?b2"
      "fst (receive_fire ?b2 c) =
        (if piece_type ?p \<in> {SUBMARINE, JET, GENERAL} then KILL
         else if hits (pieces ?b2 ! i) = coords ?p then KILL else HIT)"
      using receive_fire_hit_again [OF o2 l2] c hit2 by (simp_all add: t2 c2)
    have first: "fst (receive_fire b c) =
        (if piece_type ?p \<in> {SUBMARINE, JET, GENERAL} then KILL
         else if insert c (hits ?p) = coords ?p then KILL else HIT)"
      using Some c by (simp add: receive_fire_fst register_hit_fst)
    have full: "hits (pieces ?b2 ! i) = coords ?p" if "insert c (hits ?p) = coords ?p"
      using that h12 sub2 p1 c2 by auto
    have d: "piece_type ?p = DESTROYER" if "piece_type ?p \<notin> {SUBMARINE, JET, GENERAL}"
      using that by (cases "piece_type ?p") auto
    show ?thesis
      using again first full d Some by auto
  qed
qed

lemma example_board_reachable: "reachable_board example_board"
  unfolding example_board_def by (rule reachable_board.placed) code_simp

text \<open>
  C8, as stated, fails: the first shot at a cell of the destroyer returns HIT, and the
  same shot after the three other cells have been hit returns KILL.
\<close>

theorem receive_fire_again_differs:
  "reachable_board example_board \<and>
   fst (receive_fire example_board (1, 1, 1)) = HIT \<and>
   fst (receive_fire (later_board example_board (1, 1, 1) [(2, 1, 1), (3, 1, 1), (4, 1, 1)])
     (1, 1, 1)) = KILL"
proof -
  have "fst (receive_fire example_board (1, 1, 1)) = HIT" by code_simp
  moreover have "fst (receive_fire (later_board example_board (1, 1, 1)
      [(2, 1, 1), (3, 1, 1), (4, 1, 1)]) (1, 1, 1)) = KILL"
    by code_simp
  ultimately show ?thesis using example_board_reachable by simp
qed

theorem receive_fire_again_witness:
  "reachable_board example_board \<and>
   snd (receive_fire (later_board example_board (1, 1, 1) [(2, 1, 1)]) (1, 1, 1))
     = later_board example_board (1, 1, 1) [(2, 1, 1)] \<and>
   fst (receive_fire example_board (1, 1, 1)) = HIT \<and>
   fst (receive_fire (later_board example_board (1, 1, 1) [(2, 1, 1)]) (1, 1, 1)) = HIT \<and>
   fst (receive_fire example_board (2, 3, 1)) = KILL \<and>
   fst (receive_fire (later_board example_board (2, 3, 1) [(2, 1, 1)]) (2, 3, 1)) = KILL \<and>
   fst (receive_fire example_board (0, 0, 0)) = MISS \<and>
   fst (receive_fire (later_board example_board (0, 0, 0) [(2, 1, 1)]) (0, 0, 0)) = MISS"
proof -
  have h: "fst (receive_fire example_board (1, 1, 1)) = HIT"
    "fst (receive_fire (later_board example_board (1, 1, 1) [(2, 1, 1)]) (1, 1, 1)) = HIT"
    "fst (receive_fire example_board (2, 3, 1)) = KILL"
    "fst (receive_fire example_board (0, 0, 0)) = MISS"
    by code_simp+
  from receive_fire_again [OF example_board_reachable, of "(1, 1, 1)" "[(2, 1, 1)]"]
    receive_fire_again [OF example_board_reachable, of "(2, 3, 1)" "[(2, 1, 1)]"]
    receive_fire_again [OF example_board_reachable, of "(0, 0, 0)" "[(2, 1, 1)]"]
    example_board_reachable h
  show ?thesis by simp
qed

lemma receive_fire_HIT:
  assumes "fst (receive_fire b c) = HIT" and "index_exact b"
  shows "\<not> struck_general b c" and "\<not> struck_general (snd (receive_fire b c)) c"
    and "\<not> all_non_general_sunk (snd (receive_fire b c))"
proof -
  from assms(1) obtain i where o: "occupied b c = Some i"
    by (auto simp: receive_fire_fst split: option.splits)
  from index_exactD [OF assms(2) o] have i: "i < length (pieces b)"
    and c: "c \<in> coords (pieces b ! i)" by simp_all
  let ?p = "pieces b ! i"
  let ?p' = "?p\<lparr>hits := insert c (hits ?p)\<rparr>"
  from assms(1) o c have t: "piece_type ?p = DESTROYER" and n: "insert c (hits ?p) \<noteq> coords ?p"
    by (cases "piece_type ?p"; simp add: receive_fire_fst register_hit_fst split: if_splits)+
  have b': "snd (receive_fire b c) = b\<lparr>pieces := (pieces b)[i := ?p']\<rparr>"
    using o c by (simp add: receive_fire_snd register_hit_snd)
  show "\<not> struck_general b c" using o t by (simp add: struck_general_def)
  show "\<not> struck_general (snd (receive_fire b c)) c"
    using o t i by (simp add: b' struck_general_def)
  have "?p' \<in> set ((pieces b)[i := ?p'])" using i by (simp add: set_update_memI)
  moreover have "piece_type ?p' \<noteq> GENERAL \<and> hits ?p' \<noteq> coords ?p'" using t n by simp
  ultimately have "\<not> (\<forall>p \<in> set ((pieces b)[i := ?p']). piece_type p = GENERAL \<or> hits p = coords p)"
    by blast
  then show "\<not> all_non_general_sunk (snd (receive_fire b c))"
    by (simp add: b' all_non_general_sunk_def list_all_iff)
qed

lemma struck_general_receive_fire:
  "struck_general (snd (receive_fire b c)) c = struck_general b c"
  by (auto simp: struck_general_def receive_fire_snd register_hit_snd nth_list_update_any
      split: option.splits)

section \<open>The turn of a match\<close>

text \<open>
  C2: in a match of two boards and two sets of shots, where the index of the opponent's
  board is exact (as it is on every board populated by \<open>place_all\<close> and fired at), a
  shot at a coordinate the current player fired at before changes nothing. Any
  other shot is added to the player's shots and resolved by the opponent's board; on
  MISS the turn passes to the other player; on HIT the same player continues; on KILL
  the player wins if the piece struck is the general or if all other pieces of the
  opponent's board are now sunk, and continues otherwise.
\<close>

theorem fire_spec:
  assumes "length (boards g) = 2" and "length (shots g) = 2" and "current g < 2"
    and "index_exact (boards g ! (1 - current g))"
  shows "(c \<in> shots g ! current g \<longrightarrow> fire g c = (AlreadyFired, g)) \<and>
    (c \<notin> shots g ! current g \<longrightarrow>
       shots (snd (fire g c)) = (shots g)[current g := insert c (shots g ! current g)] \<and>
       boards (snd (fire g c)) =
         (boards g)[1 - current g := snd (receive_fire (boards g ! (1 - current g)) c)] \<and>
       (fst (receive_fire (boards g ! (1 - current g)) c) = MISS \<longrightarrow>
          fst (fire g c) = Resolved MISS None \<and> current (snd (fire g c)) = 1 - current g) \<and>
       (fst (receive_fire (boards g ! (1 - current g)) c) = HIT \<longrightarrow>
          fst (fire g c) = Resolved HIT None \<and> current (snd (fire g c)) = current g) \<and>
       (fst (receive_fire (boards g ! (1 - current g)) c) = KILL \<longrightarrow>
          fst (fire g c) = Resolved KILL
            (if struck_general (boards g ! (1 - current g)) c \<or>
                all_non_general_sunk (snd (receive_fire (boards g ! (1 - current g)) c))
             then Some (current g) else None) \<and>
          current (snd (fire g c)) = current g))"
proof -
  let ?opp = "1 - current g"
  let ?tb = "boards g ! ?opp"
  let ?sig = "fst (receive_fire ?tb c)"
  let ?tb' = "snd (receive_fire ?tb c)"
  let ?g2 = "g\<lparr>shots := (shots g)[current g := insert c (shots g ! current g)],
      boards := (boards g)[?opp := ?tb']\<rparr>"
  have sg: "(case occupied ?tb c of None \<Rightarrow> False
      | Some i \<Rightarrow> piece_type (pieces ?tb' ! i) = GENERAL) = struck_general ?tb c"
    using struck_general_receive_fire [of ?tb c]
    by (simp add: struck_general_def receive_fire_snd split: option.splits)
  have unfold: "fire g c =
      (if ?sig = MISS then (Resolved ?sig None, ?g2\<lparr>current := 1 - current g\<rparr>)
       else if struck_general ?tb c then (Resolved ?sig (Some (current g)), ?g2)
       else if all_non_general_sunk ?tb' then (Resolved ?sig (Some (current g)), ?g2)
       else (Resolved ?sig None, ?g2))"
    if "c \<notin> shots g ! current g"
    using that sg by (simp add: fire_def Let_def split_beta cong: option.case_cong)
  have dup: "fire g c = (AlreadyFired, g)" if "c \<in> shots g ! current g"
    using that by (simp add: fire_def)
  have hit: "\<not> struck_general ?tb c \<and> \<not> all_non_general_sunk ?tb'" if "?sig = HIT"
    using receive_fire_HIT [OF that assms(4)] by simp
  show ?thesis
    using dup unfold hit by auto
qed

lemma Game_init_Inr:
  assumes "Game_init d r c cnts rnd k = Inr (g, k')"
  shows "length (boards g) = 2" "shots g = [{}, {}]" "current g = 0"
    "\<forall>b \<in> set (boards g). reachable_board b"
proof -
  obtain e0 b0 k0 where p0: "place_all cnts rnd (Board3D_init d r c) k = (e0, b0, k0)"
    by (cases "place_all cnts rnd (Board3D_init d r c) k")
  obtain e1 b1 k1 where p1: "place_all cnts rnd (Board3D_init d r c) k0 = (e1, b1, k1)"
    by (cases "place_all cnts rnd (Board3D_init d r c) k0")
  from assms p0 p1 have e: "e0 = None" "e1 = None"
    and g: "g = \<lparr>boards = [b0, b1], shots = [{}, {}], current = 0\<rparr>"
    by (auto simp: Game_init_def split: option.splits)
  from reachable_board.placed [of cnts rnd d r c k] p0 e have "reachable_board b0" by simp
  moreover from reachable_board.placed [of cnts rnd d r c k0] p1 e have "reachable_board b1"
    by simp
  ultimately show "\<forall>b \<in> set (boards g). reachable_board b" by (simp add: g)
  show "length (boards g) = 2" "shots g = [{}, {}]" "current g = 0" by (simp_all add: g)
qed

lemma example_game_init:
  "Game_init 3 5 5 [(SUBMARINE, 1), (GENERAL, 1)] (\<lambda>k. k) 0 =
     Inr (example_game, snd (projr (Game_init 3 5 5 [(SUBMARINE, 1), (GENERAL, 1)] (\<lambda>k. k) 0)))"
proof -
  have "\<not> isl (Game_init 3 5 5 [(SUBMARINE, 1), (GENERAL, 1)] (\<lambda>k. k) 0)" by code_simp
  then show ?thesis
    unfolding example_game_def
    by (cases "Game_init 3 5 5 [(SUBMARINE, 1), (GENERAL, 1)] (\<lambda>k. k) 0") auto
qed

theorem fire_spec_witness:
  "length (boards example_game) = 2 \<and> length (shots example_game) = 2 \<and>
   current example_game < 2 \<and> index_exact (boards example_game ! (1 - current example_game)) \<and>
   (0, 0, 0) \<notin> shots example_game ! current example_game \<and>
   fst (receive_fire (boards example_game ! (1 - current example_game)) (0, 0, 0)) = MISS \<and>
   fst (fire example_game (0, 0, 0)) = Resolved MISS None \<and>
   current (snd (fire example_game (0, 0, 0))) = 1 \<and>
   (2, 3, 2) \<notin> shots example_game ! current example_game \<and>
   fst (receive_fire (boards example_game ! (1 - current example_game)) (2, 3, 2)) = KILL \<and>
   struck_general (boards example_game ! (1 - current example_game)) (2, 3, 2) \<and>
   fst (fire example_game (2, 3, 2)) = Resolved KILL (Some 0) \<and>
   (3, 2, 0) \<in> shots (snd (fire example_game (3, 2, 0))) !
      current (snd (fire example_game (3, 2, 0))) \<and>
   fire (snd (fire example_game (3, 2, 0))) (3, 2, 0) =
     (AlreadyFired, snd (fire example_game (3, 2, 0)))"
proof -
  note g = Game_init_Inr [OF example_game_init]
  let ?tb = "boards example_game ! (1 - current example_game)"
  have h1: "length (boards example_game) = 2" by (rule g)
  have h2: "length (shots example_game) = 2" by (simp add: g)
  have h3: "current example_game < 2" by (simp add: g)
  have "?tb \<in> set (boards example_game)"
    using h1 by (simp add: g)
  with g(4) have r: "reachable_board ?tb" by blast
  then have h4: "index_exact ?tb"
    using reachable_board_wf by (simp add: wf_board_def)
  have e: "fst (receive_fire ?tb (0, 0, 0)) = MISS"
    "fst (receive_fire ?tb (2, 3, 2)) = KILL"
    "struck_general ?tb (2, 3, 2)"
    "fst (receive_fire ?tb (3, 2, 0)) = KILL"
    by code_simp+
  let ?g1 = "snd (fire example_game (3, 2, 0))"
  from fire_spec [OF h1 h2 h3 h4, of "(3, 2, 0)"] e(4) g(2,3)
  have s1: "shots ?g1 = [{(3, 2, 0)}, {}]"
    and b1: "boards ?g1 = (boards example_game)[1 := snd (receive_fire ?tb (3, 2, 0))]"
    and c1: "current ?g1 = 0"
    by simp_all
  have l1: "length (boards ?g1) = 2" by (simp add: b1 h1)
  have l2: "length (shots ?g1) = 2" by (simp add: s1)
  have l3: "current ?g1 < 2" by (simp add: c1)
  from reachable_board.fired [OF r, of "(3, 2, 0)"]
  have "index_exact (snd (receive_fire ?tb (3, 2, 0)))"
    using reachable_board_wf by (simp add: wf_board_def)
  then have l4: "index_exact (boards ?g1 ! (1 - current ?g1))"
    by (simp add: b1 c1 h1)
  from fire_spec [OF h1 h2 h3 h4, of "(0, 0, 0)"] fire_spec [OF h1 h2 h3 h4, of "(2, 3, 2)"]
    fire_spec [OF l1 l2 l3 l4, of "(3, 2, 0)"] h1 h2 h3 h4 e g(2,3) s1 c1
  show ?thesis by simp
qed

text \<open>
  C1: the opponent's board holds one submarine and the general. The shot at a cell of
  the submarine returns KILL, so every piece but the general is destroyed in the words
  of the specification; yet \<open>all_non_general_sunk\<close> is false, nobody wins and the same
  player fires again.
\<close>

theorem single_hit_kill_not_sunk:
  "map piece_type (pieces (boards example_game ! 1)) = [SUBMARINE, GENERAL] \<and>
   current example_game = 0 \<and>
   fst (fire example_game (3, 2, 0)) = Resolved KILL None \<and>
   current (snd (fire example_game (3, 2, 0))) = 0 \<and>
   list_all (\<lambda>p. piece_type p = GENERAL \<or> spec_destroyed p)
     (pieces (boards (snd (fire example_game (3, 2, 0))) ! 1)) \<and>
   \<not> all_non_general_sunk (boards (snd (fire example_game (3, 2, 0))) ! 1)"
  by code_simp

end
